theory Spec2Isabelle
  imports
    Complex_Main
    "HOL-Library.AList"
    "HOL-Library.Char_ord"
    "HOL-Library.List_Lexorder"
    "HOL-Library.Product_Lexorder"
    "HOL-Library.Multiset"
begin

section \<open>The FindMotif class of FindMotif.py\<close>

text \<open>
  The embedding follows \<^verbatim>\<open>src/FindMotif.py\<close> method by method.

  \<^item> Python floats are read as real numbers: \<^verbatim>\<open>math.log\<close> is \<open>ln\<close>,
    \<^verbatim>\<open>math.log2\<close> is \<open>log 2\<close>, both raising \<^verbatim>\<open>ValueError\<close> outside
    their domain, and \<^verbatim>\<open>/\<close> raises \<^verbatim>\<open>ZeroDivisionError\<close> on a zero divisor.
    Rounding, infinities and NaN are not modelled.
  \<^item> A raised exception is a value \<open>Inl e\<close>; the object's partly updated state at the
    moment of the raise is dropped.
  \<^item> A \<^verbatim>\<open>dict\<close> is an association list in insertion order with distinct keys;
    \<open>map_of\<close> reads it and \<open>AList.update\<close> writes it (in place for a known key, at
    the end for a new one), as Python does.
  \<^item> The text of a file is a \<open>string\<close>: each \<open>char\<close> is one code point below 256.
    \<^verbatim>\<open>str.upper\<close> takes some of these code points above 255 (and one of them to two
    letters), so uppercased text is a list of code points of type \<open>nat\<close>, and a symbol
    (a one-character Python string used as a dict key) is one such code point. Strings
    compare by code point, as lists of \<open>char\<close> and of \<open>nat\<close> do.
  \<^item> The file system is a map from paths to the text Python's \<^verbatim>\<open>open(path, 'r')\<close>
    delivers (newlines already translated to \<^verbatim>\<open>\n\<close>); a path outside its domain
    cannot be opened.
  \<^item> \<^verbatim>\<open>print\<close> calls are console output only and are left out.
\<close>

datatype error =
    AttributeError
  | FileNotFoundError
  | IndexError
  | KeyError
  | SystemExit
  | TypeError
  | ValueError
  | ZeroDivisionError

type_synonym filesystem = "string \<rightharpoonup> string"

text \<open>Uppercased text: the code points of a Python string.\<close>

type_synonym symbols = "nat list"

type_synonym hit = "real \<times> string \<times> nat \<times> symbols"

record FindMotif =
  motif_input :: string
  sequence_file :: string
  bg_freq :: "(nat \<times> real) list"
  log_p :: "(nat \<times> real) list"
  log_q :: "((nat \<times> nat) \<times> real) list"
  q :: "((nat \<times> nat) \<times> real) list"
  N :: nat
  motif_len :: "nat option"
  motif_sequences :: "symbols list"
  informational :: "nat list"
  goodlist :: "nat list"

subsection \<open>Python primitives\<close>

definition bind_err :: "error + 'a \<Rightarrow> ('a \<Rightarrow> error + 'b) \<Rightarrow> error + 'b" where
  "bind_err m f = (case m of Inl e \<Rightarrow> Inl e | Inr x \<Rightarrow> f x)"

text \<open>A \<^verbatim>\<open>for\<close> loop without \<^verbatim>\<open>break\<close> whose body may raise.\<close>

fun for_each :: "('a \<Rightarrow> 's \<Rightarrow> error + 's) \<Rightarrow> 'a list \<Rightarrow> 's \<Rightarrow> error + 's" where
  "for_each body [] s = Inr s"
| "for_each body (x # xs) s = bind_err (body x s) (for_each body xs)"

definition py_log :: "real \<Rightarrow> error + real" where
  "py_log x = (if 0 < x then Inr (ln x) else Inl ValueError)"

definition py_log2 :: "real \<Rightarrow> error + real" where
  "py_log2 x = (if 0 < x then Inr (log 2 x) else Inl ValueError)"

definition py_div :: "real \<Rightarrow> real \<Rightarrow> error + real" where
  "py_div a b = (if b = 0 then Inl ZeroDivisionError else Inr (a / b))"

definition getitem :: "('k \<times> 'v) list \<Rightarrow> 'k \<Rightarrow> error + 'v" where
  "getitem d k = (case map_of d k of None \<Rightarrow> Inl KeyError | Some v \<Rightarrow> Inr v)"

definition keys :: "('k \<times> 'v) list \<Rightarrow> 'k list" where
  "keys d = map fst d"

text \<open>\<^verbatim>\<open>str.isspace\<close> on one code point below 256, which is also what \<^verbatim>\<open>\s\<close>
  matches in a \<^verbatim>\<open>str\<close> pattern.\<close>

definition isspace :: "char \<Rightarrow> bool" where
  "isspace c = ((of_char c :: nat) \<in> {9, 10, 11, 12, 13, 28, 29, 30, 31, 32, 133, 160})"

definition strip :: "string \<Rightarrow> string" where
  "strip s = rev (dropWhile isspace (rev (dropWhile isspace s)))"

text \<open>The code point of a character, and the code points of a string that needs no
  uppercasing.\<close>

definition code :: "char \<Rightarrow> nat" where
  "code c = of_char c"

definition codes :: "string \<Rightarrow> symbols" where
  "codes s = map code s"

text \<open>
  \<^verbatim>\<open>str.upper\<close> on one code point below 256. Besides the ASCII letters it changes
  the Latin-1 letters \<^verbatim>\<open>0xE0\<close> to \<^verbatim>\<open>0xFE\<close> (the division sign
  \<^verbatim>\<open>0xF7\<close> apart), the sharp s \<^verbatim>\<open>0xDF\<close>, which becomes the two letters
  \<^verbatim>\<open>SS\<close>, the micro sign \<^verbatim>\<open>0xB5\<close>, which becomes \<^verbatim>\<open>U+039C\<close>, and
  \<^verbatim>\<open>0xFF\<close>, which becomes \<^verbatim>\<open>U+0178\<close>.
\<close>

definition upper_char :: "char \<Rightarrow> symbols" where
  "upper_char c =
     (let n = code c in
      if 97 \<le> n \<and> n \<le> 122 then [n - 32]
      else if n = 181 then [924]
      else if n = 223 then [83, 83]
      else if 224 \<le> n \<and> n \<le> 254 \<and> n \<noteq> 247 then [n - 32]
      else if n = 255 then [376]
      else [n])"

definition upper :: "string \<Rightarrow> symbols" where
  "upper s = concat (map upper_char s)"

definition startswith :: "string \<Rightarrow> string \<Rightarrow> bool" where
  "startswith s p = (take (length p) s = p)"

text \<open>Iterating over an open text file yields its lines, each with its terminator.\<close>

fun file_lines :: "string \<Rightarrow> string list" where
  "file_lines [] = []"
| "file_lines (c # cs) =
     (if c = CHR 0x0A then [c] # file_lines cs
      else (case file_lines cs of [] \<Rightarrow> [[c]] | l # ls \<Rightarrow> (c # l) # ls))"

definition open_read :: "filesystem \<Rightarrow> string \<Rightarrow> error + string list" where
  "open_read fs path = (case fs path of None \<Rightarrow> Inl FileNotFoundError | Some text \<Rightarrow> Inr (file_lines text))"

subsection \<open>The constructor\<close>

definition default_bg_freq :: "(nat \<times> real) list" where
  "default_bg_freq =
     [(code CHR ''A'', 0.33264), (code CHR ''T'', 0.33264),
      (code CHR ''G'', 0.16736), (code CHR ''C'', 0.16736)]"

text \<open>The dict comprehension \<^verbatim>\<open>{symbol: log(bg_freq[symbol]) for symbol in bg_freq.keys()}\<close>.\<close>

definition log_table :: "(nat \<times> real) list \<Rightarrow> error + (nat \<times> real) list" where
  "log_table bg =
     for_each (\<lambda>symbol d. bind_err (getitem bg symbol) (\<lambda>f.
                 bind_err (py_log f) (\<lambda>l. Inr (AList.update symbol l d))))
       (keys bg) []"

text \<open>
  \<^verbatim>\<open>__init__(self, motif_input=None, sequence_file=None, bg_freq=None)\<close>. An argument is
  falsy when it is \<^verbatim>\<open>None\<close> or empty. The two path arguments have an
  \<^verbatim>\<open>else\<close> branch that stores the caller's value; \<^verbatim>\<open>bg_freq\<close> has none, so
  with a non-empty table \<^verbatim>\<open>self.bg_freq\<close> is never assigned and the next statement,
  which reads it, raises \<^verbatim>\<open>AttributeError\<close>.

  \<^verbatim>\<open>self.motif_sequences = self.informational = []\<close> binds both names to one list
  object. \<^verbatim>\<open>GetMotif\<close> rebinds \<^verbatim>\<open>motif_sequences\<close> to a fresh list before
  anything is appended, and \<^verbatim>\<open>_GetInformational\<close> appends nothing while
  \<^verbatim>\<open>motif_len\<close> is still 0, so the sharing is never observable through the methods
  and the record keeps two fields.
\<close>

definition init ::
  "string option \<Rightarrow> string option \<Rightarrow> (nat \<times> real) list option \<Rightarrow> error + FindMotif" where
  "init motif_input_arg sequence_file_arg bg_freq_arg =
     (let mi = (case motif_input_arg of None \<Rightarrow> ''71NpNtSm.txt''
                | Some p \<Rightarrow> if p = [] then ''71NpNtSm.txt'' else p);
          sf = (case sequence_file_arg of None \<Rightarrow> ''AnabaenaChromosome.nt''
                | Some p \<Rightarrow> if p = [] then ''AnabaenaChromosome.nt'' else p)
      in bind_err (case bg_freq_arg of None \<Rightarrow> Inr default_bg_freq
                   | Some t \<Rightarrow> if t = [] then Inr default_bg_freq else Inl AttributeError)
           (\<lambda>bg. bind_err (log_table bg)
           (\<lambda>lp. Inr \<lparr> motif_input = mi, sequence_file = sf, bg_freq = bg, log_p = lp,
                       log_q = [], q = [], N = 0, motif_len = Some 0,
                       motif_sequences = [], informational = [], goodlist = [] \<rparr>)))"

subsection \<open>ReadContigs\<close>

text \<open>
  The loop over the lines of the sequence file. \<^verbatim>\<open>sequence\<close> starts as the empty
  string and is set to \<^verbatim>\<open>None\<close> when a record is flushed, so it is a
  \<open>string option\<close>; \<^verbatim>\<open>sequence += line.upper()\<close> on \<^verbatim>\<open>None\<close> raises
  \<^verbatim>\<open>TypeError\<close>. A sequence is truthy when it is a non-empty string. The header
  line is appended whole, with its \<^verbatim>\<open>>\<close>.
\<close>

fun read_contig_lines ::
  "string list \<Rightarrow> string list \<Rightarrow> symbols list \<Rightarrow> symbols option
     \<Rightarrow> error + (string list \<times> symbols list \<times> symbols option)" where
  "read_contig_lines [] headers sequences sequence = Inr (headers, sequences, sequence)"
| "read_contig_lines (raw # rest) headers sequences sequence =
     (let line = strip raw in
      if startswith line ''>'' then
        (case sequence of
           Some s \<Rightarrow>
             if s \<noteq> [] then read_contig_lines rest (headers @ [line]) (sequences @ [s]) None
             else read_contig_lines rest (headers @ [line]) sequences sequence
         | None \<Rightarrow> read_contig_lines rest (headers @ [line]) sequences sequence)
      else
        (case sequence of
           None \<Rightarrow> Inl TypeError
         | Some s \<Rightarrow> read_contig_lines rest headers sequences (Some (s @ upper line))))"

text \<open>After the loop the last sequence is appended and its length taken:
  \<^verbatim>\<open>len(None)\<close> raises \<^verbatim>\<open>TypeError\<close>.\<close>

definition ReadContigs :: "filesystem \<Rightarrow> FindMotif \<Rightarrow> error + (string list \<times> symbols list)" where
  "ReadContigs fs self =
     bind_err (open_read fs (sequence_file self)) (\<lambda>lines.
     bind_err (read_contig_lines lines [] [] (Some [])) (\<lambda>(headers, sequences, sequence).
       case sequence of
         None \<Rightarrow> Inl TypeError
       | Some s \<Rightarrow> Inr (headers, sequences @ [s])))"

subsection \<open>GetMotif\<close>

definition is_nucleotide :: "char \<Rightarrow> bool" where
  "is_nucleotide c = (c \<in> set ''ACGTacgt'')"

text \<open>
  \<^verbatim>\<open>re.compile('\s([ACGTacgt]+)$').search(line)\<close>, returning group 1. The search tries
  each start index from the left; at an index the pattern matches when the character there
  is white space and the rest of the line, up to its end, is a non-empty run of
  nucleotide letters. (The line has been stripped, so \<^verbatim>\<open>$\<close> can only match at the
  very end.)
\<close>

fun motif_search :: "string \<Rightarrow> string option" where
  "motif_search [] = None"
| "motif_search (c # cs) =
     (if isspace c \<and> cs \<noteq> [] \<and> list_all is_nucleotide cs then Some cs else motif_search cs)"

text \<open>The loop over the lines of the motif file; \<^verbatim>\<open>exit()\<close> raises
  \<^verbatim>\<open>SystemExit\<close>. \<^verbatim>\<open>not motif_len\<close> holds for \<^verbatim>\<open>None\<close> and for 0.\<close>

fun get_motif_lines ::
  "string list \<Rightarrow> nat option \<Rightarrow> symbols list \<Rightarrow> error + (nat option \<times> symbols list)" where
  "get_motif_lines [] motif_len_local seqs = Inr (motif_len_local, seqs)"
| "get_motif_lines (raw # rest) motif_len_local seqs =
     (let line = strip raw in
      case motif_search line of
        None \<Rightarrow> get_motif_lines rest motif_len_local seqs
      | Some motif \<Rightarrow>
          (let motif_len_local =
                 (if motif_len_local = None \<or> motif_len_local = Some 0
                  then Some (length motif) else motif_len_local)
           in if motif_len_local = Some (length motif)
              then get_motif_lines rest motif_len_local (seqs @ [upper motif])
              else Inl SystemExit))"

definition GetMotif :: "filesystem \<Rightarrow> FindMotif \<Rightarrow> error + FindMotif" where
  "GetMotif fs self =
     bind_err (open_read fs (motif_input self)) (\<lambda>lines.
     bind_err (get_motif_lines lines None []) (\<lambda>(motif_len_local, seqs).
       Inr (self\<lparr> motif_sequences := seqs, N := length seqs, motif_len := motif_len_local \<rparr>)))"

subsection \<open>The private method computing the informational positions\<close>

text \<open>\<^verbatim>\<open>range(n)\<close> raises \<^verbatim>\<open>TypeError\<close> when \<^verbatim>\<open>n\<close> is \<^verbatim>\<open>None\<close>.\<close>

definition py_range :: "nat option \<Rightarrow> error + nat list" where
  "py_range n = (case n of None \<Rightarrow> Inl TypeError | Some k \<Rightarrow> Inr [0..<k])"

text \<open>One round of the inner loop:
  \<^verbatim>\<open>information += self.q[symbol, position] * log2(self.q[symbol, position])\<close>.\<close>

definition information_step :: "FindMotif \<Rightarrow> nat \<Rightarrow> nat \<Rightarrow> real \<Rightarrow> error + real" where
  "information_step self position symbol information =
     bind_err (getitem (q self) (symbol, position)) (\<lambda>x.
     bind_err (py_log2 x) (\<lambda>l. Inr (information + x * l)))"

text \<open>The information content of one column as the method computes it: the accumulator
  starts at the literal 2 and takes one step per key of \<^verbatim>\<open>bg_freq\<close>.\<close>

definition information :: "FindMotif \<Rightarrow> nat \<Rightarrow> error + real" where
  "information self position = for_each (information_step self position) (keys (bg_freq self)) 2"

text \<open>The body of the loop over the positions: the information content of the column,
  then \<^verbatim>\<open>self.informational.append(position)\<close> when it exceeds 1.25.\<close>

definition informational_body :: "nat \<Rightarrow> FindMotif \<Rightarrow> error + FindMotif" where
  "informational_body position self =
     bind_err (information self position) (\<lambda>info.
       if info > 1.25
       then Inr (self\<lparr> informational := informational self @ [position] \<rparr>)
       else Inr self)"

text \<open>
  \<^verbatim>\<open>_GetInformational\<close> (an Isabelle name cannot start with an underscore). It resets
  \<^verbatim>\<open>self.goodlist\<close> and then appends every qualifying position to
  \<^verbatim>\<open>self.informational\<close>, which it does not reset.
\<close>

definition GetInformational :: "FindMotif \<Rightarrow> error + FindMotif" where
  "GetInformational self0 =
     (let self = self0\<lparr> goodlist := [] \<rparr> in
      bind_err (py_range (motif_len self)) (\<lambda>positions.
        for_each informational_body positions self))"

subsection \<open>MakePSSM\<close>

text \<open>The pseudocount argument: a number, or the string \<^verbatim>\<open>'SQRTN'\<close>.\<close>

datatype pseudocount = Num real | SQRTN

text \<open>The counting loop: one increment of \<^verbatim>\<open>counts[(symbol, position)]\<close> per symbol of
  every motif.\<close>

definition count_symbol ::
  "nat \<times> nat \<Rightarrow> ((nat \<times> nat) \<times> nat) list \<Rightarrow> ((nat \<times> nat) \<times> nat) list" where
  "count_symbol key counts =
     (case map_of counts key of
        Some c \<Rightarrow> AList.update key (c + 1) counts
      | None \<Rightarrow> AList.update key 1 counts)"

definition count_motifs :: "symbols list \<Rightarrow> ((nat \<times> nat) \<times> nat) list" where
  "count_motifs motifs =
     fold (\<lambda>motif counts.
             fold (\<lambda>(position, symbol). count_symbol (symbol, position)) (enumerate 0 motif) counts)
       motifs []"

text \<open>
  The body of the filling loop. \<^verbatim>\<open>counts.setdefault(key, 0)\<close> stores 0 under a new
  key and returns the value under the key. The quotient is written twice in the source,
  once under \<^verbatim>\<open>log\<close> and once for \<^verbatim>\<open>self.q\<close>; the model computes it once.
\<close>

type_synonym pssm_tables =
  "((nat \<times> nat) \<times> nat) list \<times> ((nat \<times> nat) \<times> real) list \<times> ((nat \<times> nat) \<times> real) list"

definition fill_entry ::
  "FindMotif \<Rightarrow> real \<Rightarrow> nat \<Rightarrow> nat \<Rightarrow> pssm_tables \<Rightarrow> error + pssm_tables" where
  "fill_entry self B symbol position tables =
     (case tables of (counts, lq, qq) \<Rightarrow>
        (let counts = (case map_of counts (symbol, position) of
                         None \<Rightarrow> AList.update (symbol, position) 0 counts
                       | Some c \<Rightarrow> counts);
             cur_count = (case map_of counts (symbol, position) of None \<Rightarrow> 0 | Some c \<Rightarrow> c)
         in bind_err (getitem (bg_freq self) symbol) (\<lambda>bg.
            bind_err (py_div (real cur_count + B * bg) (real (N self) + B)) (\<lambda>x.
            bind_err (py_log x) (\<lambda>l.
              Inr (counts, AList.update (symbol, position) l lq,
                   AList.update (symbol, position) x qq))))))"

definition MakePSSM :: "filesystem \<Rightarrow> FindMotif \<Rightarrow> pseudocount \<Rightarrow> error + FindMotif" where
  "MakePSSM fs self0 B0 =
     bind_err (if motif_sequences self0 = [] then GetMotif fs self0 else Inr self0) (\<lambda>self.
       (let B = (case B0 of SQRTN \<Rightarrow> sqrt (real (N self)) | Num b \<Rightarrow> b);
            counts = count_motifs (motif_sequences self)
        in bind_err
             (for_each (\<lambda>symbol tables.
                  bind_err (py_range (motif_len self)) (\<lambda>positions.
                    for_each (fill_entry self B symbol) positions tables))
                (keys (bg_freq self)) (counts, log_q self, q self))
             (\<lambda>(counts, lq, qq). GetInformational (self\<lparr> log_q := lq, q := qq \<rparr>))))"

subsection \<open>AnalyzeSequences\<close>

text \<open>One round of the scoring loop over \<^verbatim>\<open>self.informational\<close>:
  \<^verbatim>\<open>symbol = region[position]\<close>, then
  \<^verbatim>\<open>region_score += self.log_q[(symbol, position)] - self.log_p[symbol]\<close>.\<close>

definition score_step :: "FindMotif \<Rightarrow> symbols \<Rightarrow> nat \<Rightarrow> real \<Rightarrow> error + real" where
  "score_step self region position region_score =
     (if position < length region then
        (let symbol = region ! position in
         bind_err (getitem (log_q self) (symbol, position)) (\<lambda>lq.
         bind_err (getitem (log_p self) symbol) (\<lambda>lp. Inr (region_score + (lq - lp)))))
      else Inl IndexError)"

definition region_score :: "FindMotif \<Rightarrow> symbols \<Rightarrow> error + real" where
  "region_score self region = for_each (score_step self region) (informational self) 0"

text \<open>The body of the loop over start positions, up to the test-mode check: the slice, the
  score, and the append of the hit when the score exceeds the threshold.\<close>

definition scan_window ::
  "FindMotif \<Rightarrow> real \<Rightarrow> string list \<Rightarrow> nat \<Rightarrow> symbols \<Rightarrow> nat \<Rightarrow> nat \<Rightarrow> hit list
     \<Rightarrow> error + hit list" where
  "scan_window self threshold headers seq_num sequence L start_position scores =
     (let region = take L (drop start_position sequence) in
      bind_err (region_score self region) (\<lambda>score.
        if score > threshold then
          (if seq_num < length headers
           then Inr (scores @ [(score, headers ! seq_num, start_position, region)])
           else Inl IndexError)
        else Inr scores))"

text \<open>The loop over start positions with its \<^verbatim>\<open>break\<close>: the window is processed first,
  then the loop is left when the start position is above 50000 or the sequence number is
  above 100.\<close>

fun scan_positions ::
  "FindMotif \<Rightarrow> real \<Rightarrow> string list \<Rightarrow> nat \<Rightarrow> symbols \<Rightarrow> nat \<Rightarrow> nat list \<Rightarrow> hit list
     \<Rightarrow> error + hit list" where
  "scan_positions self threshold headers seq_num sequence L [] scores = Inr scores"
| "scan_positions self threshold headers seq_num sequence L (start_position # rest) scores =
     (case scan_window self threshold headers seq_num sequence L start_position scores of
        Inl e \<Rightarrow> Inl e
      | Inr scores \<Rightarrow>
          if start_position > 50000 \<or> seq_num > 100 then Inr scores
          else scan_positions self threshold headers seq_num sequence L rest scores)"

text \<open>The body of the loop over the sequences:
  \<^verbatim>\<open>range(len(sequence) - self.motif_len)\<close> is empty for a negative argument and raises
  \<^verbatim>\<open>TypeError\<close> when \<^verbatim>\<open>motif_len\<close> is \<^verbatim>\<open>None\<close>.\<close>

definition scan_sequence ::
  "FindMotif \<Rightarrow> real \<Rightarrow> string list \<Rightarrow> nat \<times> symbols \<Rightarrow> hit list \<Rightarrow> error + hit list" where
  "scan_sequence self threshold headers item scores =
     (case item of (seq_num, sequence) \<Rightarrow>
        (case motif_len self of
           None \<Rightarrow> Inl TypeError
         | Some L \<Rightarrow>
             scan_positions self threshold headers seq_num sequence L
               [0..<length sequence - L] scores))"

text \<open>\<^verbatim>\<open>scores.sort(reverse=True)\<close>: Python reverses the list, sorts it stably in
  ascending order of the tuples and reverses the result.\<close>

definition sort_reverse :: "hit list \<Rightarrow> hit list" where
  "sort_reverse scores = rev (sort (rev scores))"

text \<open>\<^verbatim>\<open>del scores[k:]\<close>; a negative \<^verbatim>\<open>k\<close> counts from the end.\<close>

definition del_from :: "int \<Rightarrow> 'a list \<Rightarrow> 'a list" where
  "del_from k xs = (if 0 \<le> k then take (nat k) xs else take (length xs - nat (- k)) xs)"

text \<open>The method returns the list of hits; the object it leaves behind (changed when the
  model was built on the way) is returned beside it.\<close>

definition AnalyzeSequences ::
  "filesystem \<Rightarrow> FindMotif \<Rightarrow> real \<Rightarrow> int \<Rightarrow> error + (FindMotif \<times> hit list)" where
  "AnalyzeSequences fs self0 threshold number_of_hits =
     bind_err (if log_q self0 = [] then MakePSSM fs self0 (Num 0.1) else Inr self0) (\<lambda>self.
     bind_err (ReadContigs fs self) (\<lambda>(headers, sequences).
     bind_err (for_each (scan_sequence self threshold headers) (enumerate 0 sequences) [])
       (\<lambda>scores. Inr (self, del_from number_of_hits (sort_reverse scores)))))"

section \<open>Notions the claims speak about\<close>

text \<open>The start positions at which the loop of \<open>scan_positions\<close> runs its body, given
  the list it iterates over: the skeleton of the loop, \<^verbatim>\<open>break\<close> included, without
  the body.\<close>

fun visited :: "nat \<Rightarrow> nat list \<Rightarrow> nat list" where
  "visited seq_num [] = []"
| "visited seq_num (start_position # rest) =
     start_position #
       (if start_position > 50000 \<or> seq_num > 100 then [] else visited seq_num rest)"

text \<open>The contribution of position \<open>p\<close> of a window to its score:
  \<^verbatim>\<open>log_q[window[p], p] - log_p[window[p]]\<close>, for entries that exist.\<close>

definition log_odds :: "FindMotif \<Rightarrow> symbols \<Rightarrow> nat \<Rightarrow> real" where
  "log_odds self window p =
     the (map_of (log_q self) (window ! p, p)) - the (map_of (log_p self) (window ! p))"

text \<open>The order of two hits in the returned list, field by field: a higher score first;
  among equal scores the greater header first, then the greater start position, then the
  greater window text.\<close>

definition ranks_before :: "hit \<Rightarrow> hit \<Rightarrow> bool" where
  "ranks_before a b =
     (case a of (s1, h1, o1, w1) \<Rightarrow> case b of (s2, h2, o2, w2) \<Rightarrow>
        s1 > s2 \<or> (s1 = s2 \<and> (h1 > h2 \<or> (h1 = h2 \<and> (o1 > o2 \<or> (o1 = o2 \<and> w1 \<ge> w2))))))"

text \<open>Reading the dict of counts with \<^verbatim>\<open>setdefault(key, 0)\<close>'s default.\<close>

definition count_of :: "((nat \<times> nat) \<times> nat) list \<Rightarrow> nat \<times> nat \<Rightarrow> nat" where
  "count_of counts key = (case map_of counts key of None \<Rightarrow> 0 | Some c \<Rightarrow> c)"

text \<open>The quotient the filling loop stores for a key, given the counts read with that
  default.\<close>

definition raw_frequency ::
  "FindMotif \<Rightarrow> real \<Rightarrow> (nat \<times> nat \<Rightarrow> nat) \<Rightarrow> nat \<times> nat \<Rightarrow> real" where
  "raw_frequency self B cnt k =
     (real (cnt k) + B * the (map_of (bg_freq self) (fst k))) / (real (N self) + B)"

text \<open>The training set of a model: the number of motifs with symbol \<open>s\<close> at position
  \<open>p\<close>; and the well-formedness the loader establishes: \<open>N\<close> motifs, all of the motif
  width, made of symbols of the background table.\<close>

definition occurrences :: "symbols list \<Rightarrow> nat \<Rightarrow> nat \<Rightarrow> nat" where
  "occurrences motifs s p = length (filter (\<lambda>m. p < length m \<and> m ! p = s) motifs)"

definition training_ok :: "FindMotif \<Rightarrow> bool" where
  "training_ok self \<longleftrightarrow>
     N self = length (motif_sequences self)
     \<and> (\<forall>m\<in>set (motif_sequences self).
           motif_len self = Some (length m) \<and> set m \<subseteq> set (keys (bg_freq self)))"

text \<open>The number the pseudocount argument stands for.\<close>

definition pseudocount_value :: "FindMotif \<Rightarrow> pseudocount \<Rightarrow> real" where
  "pseudocount_value self B0 = (case B0 of SQRTN \<Rightarrow> sqrt (real (N self)) | Num b \<Rightarrow> b)"

text \<open>The specification's pseudocount-adjusted frequency
  \<^verbatim>\<open>q[s,p] = (count[s,p] + B * background[s]) / (N + B)\<close>.\<close>

definition adjusted_frequency :: "FindMotif \<Rightarrow> real \<Rightarrow> nat \<Rightarrow> nat \<Rightarrow> real" where
  "adjusted_frequency self B s p =
     (real (occurrences (motif_sequences self) s p) + B * the (map_of (bg_freq self) s))
       / (real (N self) + B)"

text \<open>The stored frequency \<^verbatim>\<open>self.q[s, p]\<close>, for an entry that exists, and the
  specification's information content
  \<^verbatim>\<open>info[p] = log2(|alphabet|) + sum over s of q[s,p] * log2(q[s,p])\<close>, the alphabet
  being the keys of the background table.\<close>

definition q_at :: "FindMotif \<Rightarrow> nat \<Rightarrow> nat \<Rightarrow> real" where
  "q_at self s p = the (map_of (q self) (s, p))"

definition information_content :: "FindMotif \<Rightarrow> nat \<Rightarrow> real" where
  "information_content self p =
     log 2 (real (length (keys (bg_freq self))))
       + (\<Sum>s\<leftarrow>keys (bg_freq self). q_at self s p * log 2 (q_at self s p))"

text \<open>The value the code accumulates for a column: the literal 2 plus the sum over the
  keys of the background table.\<close>

definition information_sum :: "FindMotif \<Rightarrow> nat \<Rightarrow> real" where
  "information_sum self p =
     2 + (\<Sum>s\<leftarrow>keys (bg_freq self). q_at self s p * log 2 (q_at self s p))"

section \<open>Objects and files used as concrete inputs\<close>

text \<open>The object the constructor returns for two non-empty paths and no table: the built-in
  background table, its logarithms, and empty model fields.\<close>

definition fresh :: "string \<Rightarrow> string \<Rightarrow> FindMotif" where
  "fresh mi sf =
     \<lparr> motif_input = mi, sequence_file = sf, bg_freq = default_bg_freq,
       log_p = [(code CHR ''A'', ln 0.33264), (code CHR ''T'', ln 0.33264),
                (code CHR ''G'', ln 0.16736), (code CHR ''C'', ln 0.16736)],
       log_q = [], q = [], N = 0, motif_len = Some 0,
       motif_sequences = [], informational = [], goodlist = [] \<rparr>"

definition example_fs :: filesystem where
  "example_fs =
     [''motifs.txt'' \<mapsto> ''s1 AC\<newline>s2 AC\<newline>'',
      ''one.fa'' \<mapsto> ''>h1\<newline>ACGT\<newline>'',
      ''two.fa'' \<mapsto> ''>h1\<newline>ACGT\<newline>>h2\<newline>TTTT\<newline>'',
      ''ties.fa'' \<mapsto> ''>h1\<newline>ACACA\<newline>'',
      ''exact.fa'' \<mapsto> ''>h1\<newline>AC\<newline>'',
      ''unknown.fa'' \<mapsto> ''>h1\<newline>ACNAC\<newline>'']"

text \<open>The object after \<^verbatim>\<open>GetMotif\<close> has read \<^verbatim>\<open>motifs.txt\<close>.\<close>

definition loaded :: "string \<Rightarrow> FindMotif" where
  "loaded sf =
     (fresh ''motifs.txt'' sf)\<lparr> motif_sequences := [(codes ''AC''), (codes ''AC'')], N := 2, motif_len := Some 2 \<rparr>"

text \<open>The model built from the motif file \<^verbatim>\<open>motifs.txt\<close> (two motifs \<^verbatim>\<open>AC\<close>) with
  the default pseudocount constant 0.1, for an object reading the sequence file \<open>sf\<close>.\<close>

definition example_q :: "((nat \<times> nat) \<times> real) list" where
  "example_q =
     [((code CHR ''A'', 0), (2 + 0.1 * 0.33264) / (2 + 0.1)), ((code CHR ''A'', 1), (0 + 0.1 * 0.33264) / (2 + 0.1)),
      ((code CHR ''T'', 0), (0 + 0.1 * 0.33264) / (2 + 0.1)), ((code CHR ''T'', 1), (0 + 0.1 * 0.33264) / (2 + 0.1)),
      ((code CHR ''G'', 0), (0 + 0.1 * 0.16736) / (2 + 0.1)), ((code CHR ''G'', 1), (0 + 0.1 * 0.16736) / (2 + 0.1)),
      ((code CHR ''C'', 0), (0 + 0.1 * 0.16736) / (2 + 0.1)), ((code CHR ''C'', 1), (2 + 0.1 * 0.16736) / (2 + 0.1))]"

definition built :: "string \<Rightarrow> FindMotif" where
  "built sf =
     (fresh ''motifs.txt'' sf)
       \<lparr> log_q := map (\<lambda>(k, x). (k, ln x)) example_q, q := example_q, N := 2,
         motif_len := Some 2, motif_sequences := [(codes ''AC''), (codes ''AC'')], informational := [0, 1] \<rparr>"

text \<open>The scores of the windows \<^verbatim>\<open>AC\<close> and \<^verbatim>\<open>CA\<close> under that model.\<close>

definition score_AC :: real where
  "score_AC = (ln ((2 + 0.1 * 0.33264) / (2 + 0.1)) - ln 0.33264)
            + (ln ((2 + 0.1 * 0.16736) / (2 + 0.1)) - ln 0.16736)"

definition score_CA :: real where
  "score_CA = (ln ((0 + 0.1 * 0.16736) / (2 + 0.1)) - ln 0.16736)
            + (ln ((0 + 0.1 * 0.33264) / (2 + 0.1)) - ln 0.33264)"

section \<open>Properties\<close>

subsection \<open>The error monad and the text primitives\<close>

lemma bind_err_simps [simp]:
  "bind_err (Inl e) f = Inl e" "bind_err (Inr x) f = f x"
  by (simp_all add: bind_err_def)

lemma bind_err_Inr_iff: "bind_err m f = Inr y \<longleftrightarrow> (\<exists>x. m = Inr x \<and> f x = Inr y)"
  by (cases m) simp_all

lemma code_eq_iff [simp]: "code c = code d \<longleftrightarrow> c = d"
  by (simp add: code_def)

lemma codes_eq_iff [simp]: "codes s = codes t \<longleftrightarrow> s = t"
  by (simp add: codes_def inj_map_eq_map inj_on_def)

lemma codes_Nil_iff [simp]: "codes s = [] \<longleftrightarrow> s = []"
  by (simp add: codes_def)

lemma codes_simps [simp]:
  "length (codes s) = length s"
  "take n (codes s) = codes (take n s)"
  "drop n (codes s) = codes (drop n s)"
  by (simp_all add: codes_def take_map drop_map)

lemma nth_codes [simp]: "i < length s \<Longrightarrow> codes s ! i = code (s ! i)"
  by (simp add: codes_def)

text \<open>Text that uppercasing leaves as it is.\<close>

lemma upper_eq_codes: "list_all (\<lambda>c. upper_char c = [code c]) s \<Longrightarrow> upper s = codes s"
  by (induction s) (simp_all add: upper_def codes_def)

lemma upper_char_capitals:
  "upper_char CHR ''A'' = [code CHR ''A'']" "upper_char CHR ''C'' = [code CHR ''C'']"
  "upper_char CHR ''G'' = [code CHR ''G'']" "upper_char CHR ''T'' = [code CHR ''T'']"
  "upper_char CHR ''N'' = [code CHR ''N'']"
  by (simp_all add: upper_char_def code_def)

lemmas text_simps = strip_def isspace_def startswith_def upper_eq_codes upper_char_capitals

subsection \<open>The constructor\<close>

lemma log_table_default: "log_table default_bg_freq = Inr (log_p (fresh mi sf))"
  by (simp add: log_table_def default_bg_freq_def keys_def getitem_def py_log_def fresh_def)

lemma init_default:
  "init mi_arg sf_arg None =
     Inr (fresh (case mi_arg of None \<Rightarrow> ''71NpNtSm.txt''
                 | Some p \<Rightarrow> if p = [] then ''71NpNtSm.txt'' else p)
                (case sf_arg of None \<Rightarrow> ''AnabaenaChromosome.nt''
                 | Some p \<Rightarrow> if p = [] then ''AnabaenaChromosome.nt'' else p))"
  using log_table_default [of undefined undefined]
  by (simp add: init_def fresh_def Let_def)

lemma init_supplied_table: "t \<noteq> [] \<Longrightarrow> init mi_arg sf_arg (Some t) = Inl AttributeError"
  by (simp add: init_def Let_def)

text \<open>
  Claim C9 says that the background table is a configuration parameter: constructing the
  component with any caller-supplied table (symbols mapped to probabilities summing to 1)
  succeeds, and the model is computed from that table. The constructor stores the table
  only in the branch taken when none is supplied, so on the uniform four-symbol table it
  raises \<^verbatim>\<open>AttributeError\<close> instead of returning an object.
\<close>

theorem init_with_table_raises:
  "init None None (Some [(code CHR ''A'', 0.25), (code CHR ''C'', 0.25), (code CHR ''G'', 0.25), (code CHR ''T'', 0.25)])
     = Inl AttributeError"
  by (simp add: init_def Let_def)

subsection \<open>The contig reader\<close>

lemma read_contig_lines_headers:
  "read_contig_lines ls hs ss s = Inr (hs', ss', s') \<Longrightarrow>
     hs' = hs @ filter (\<lambda>line. startswith line ''>'') (map strip ls)"
proof (induction ls arbitrary: hs ss s)
  case Nil
  then show ?case by simp
next
  case (Cons raw rest)
  from Cons.prems show ?case
    by (auto simp: Let_def split: if_splits option.splits dest!: Cons.IH)
qed

lemma read_contig_lines_None:
  "read_contig_lines ls hs ss None = Inr (hs', ss', s') \<Longrightarrow> s' = None"
proof (induction ls arbitrary: hs)
  case Nil
  then show ?case by simp
next
  case (Cons raw rest)
  from Cons.prems show ?case
    by (auto simp: Let_def split: if_splits dest: Cons.IH)
qed

lemma read_contig_lines_Some:
  "read_contig_lines ls hs ss (Some s) = Inr (hs', ss', Some s') \<Longrightarrow>
     ss' = ss
     \<and> s' = s @ concat (map upper (filter (\<lambda>line. \<not> startswith line ''>'') (map strip ls)))"
proof (induction ls arbitrary: hs s)
  case Nil
  then show ?case by simp
next
  case (Cons raw rest)
  from Cons.prems show ?case
    by (auto simp: Let_def split: if_splits dest: Cons.IH read_contig_lines_None)
qed

text \<open>A run of the reader that returns has never flushed a record: it returns every marker
  line as a header and one sequence, the uppercased text of all other lines.\<close>

lemma ReadContigs_returns:
  assumes "fs (sequence_file self) = Some content"
    and "ReadContigs fs self = Inr (headers, sequences)"
  shows "headers = filter (\<lambda>line. startswith line ''>'') (map strip (file_lines content))
       \<and> sequences = [concat (map upper (filter (\<lambda>line. \<not> startswith line ''>'')
                                            (map strip (file_lines content))))]"
proof -
  from assms obtain ss s where
    r: "read_contig_lines (file_lines content) [] [] (Some []) = Inr (headers, ss, Some s)" and
    q: "sequences = ss @ [s]"
    by (auto simp: ReadContigs_def open_read_def bind_err_Inr_iff split: option.splits)
  from read_contig_lines_headers [OF r] read_contig_lines_Some [OF r] q
  show ?thesis by simp
qed

lemma ReadContigs_one_record:
  "ReadContigs example_fs (fresh ''motifs.txt'' ''one.fa'') = Inr ([''>h1''], [codes ''ACGT''])"
  by (simp add: ReadContigs_def open_read_def example_fs_def fresh_def text_simps Let_def)

text \<open>
  Claim C1: on the two-record file \<^verbatim>\<open>>h1\nACGT\n>h2\nTTTT\n\<close> the reader returns,
  without raising, the headers \<^verbatim>\<open>["h1","h2"]\<close> and the sequences
  \<^verbatim>\<open>["ACGT","TTTT"]\<close>. On that file the reader of the object made by the constructor
  does not return: when the second marker line is read, the first record is flushed and the
  sequence variable is set to \<^verbatim>\<open>None\<close>, and the next line, \<^verbatim>\<open>TTTT\<close>, is
  appended to it, which raises \<^verbatim>\<open>TypeError\<close>.
\<close>

theorem ReadContigs_two_records_raises:
  "init (Some ''motifs.txt'') (Some ''two.fa'') None = Inr (fresh ''motifs.txt'' ''two.fa'')
   \<and> ReadContigs example_fs (fresh ''motifs.txt'' ''two.fa'') = Inl TypeError
   \<and> ReadContigs example_fs (fresh ''motifs.txt'' ''two.fa'')
       \<noteq> Inr ([''h1'', ''h2''], [(codes ''ACGT''), (codes ''TTTT'')])"
  by (simp add: init_default ReadContigs_def open_read_def example_fs_def fresh_def text_simps
        Let_def)

subsection \<open>Loops\<close>

lemma for_each_append:
  "for_each body (xs @ ys) s = bind_err (for_each body xs s) (for_each body ys)"
  by (induction xs arbitrary: s) (auto simp: bind_err_def split: sum.splits)

text \<open>A loop whose body raises at some element, whatever the state, raises.\<close>

lemma for_each_fails:
  assumes "x \<in> set xs" and "\<And>s. \<exists>e. body x s = Inl e"
  shows "\<exists>e. for_each body xs s = Inl e"
  using assms(1)
proof (induction xs arbitrary: s)
  case Nil
  then show ?case by simp
next
  case (Cons y ys)
  show ?case
  proof (cases "body y s")
    case (Inl e)
    then show ?thesis by simp
  next
    case (Inr s')
    show ?thesis
    proof (cases "x = y")
      case True
      with assms(2) [of s] Inr show ?thesis by simp
    next
      case False
      with Cons.prems have "x \<in> set ys" by simp
      from Cons.IH [OF this, of s'] Inr show ?thesis by simp
    qed
  qed
qed

subsection \<open>The start positions the scan visits\<close>

lemma scan_positions_visited:
  "scan_positions self threshold headers seq_num sequence L offs scores =
     for_each (scan_window self threshold headers seq_num sequence L) (visited seq_num offs) scores"
  by (induction offs arbitrary: scores) (auto simp: bind_err_def split: sum.splits)

lemma scan_sequence_visited:
  "motif_len self = Some L \<Longrightarrow>
   scan_sequence self threshold headers (seq_num, sequence) scores =
     for_each (scan_window self threshold headers seq_num sequence L)
       (visited seq_num [0..<length sequence - L]) scores"
  by (simp add: scan_sequence_def scan_positions_visited)

lemma visited_upt_from:
  "visited k [i..<n] = [i..<min n (if k > 100 \<or> i > 50000 then Suc i else 50002)]"
proof (induction "n - i" arbitrary: i)
  case 0
  then show ?case by simp
next
  case (Suc d)
  then have lt: "i < n" and d: "d = n - Suc i" by simp_all
  have step: "[i..<n] = i # [Suc i..<n]" using lt by (simp add: upt_conv_Cons)
  show ?case
  proof (cases "k > 100 \<or> i > 50000")
    case True
    then show ?thesis using lt by (auto simp: step min_def)
  next
    case False
    then have "visited k [i..<n] = i # visited k [Suc i..<n]" by (simp add: step)
    also have "visited k [Suc i..<n] =
        [Suc i..<min n (if k > 100 \<or> Suc i > 50000 then Suc (Suc i) else 50002)]"
      using Suc.hyps(1) [OF d] .
    also have "i # \<dots> = [i..<min n 50002]"
      using False lt by (auto simp: upt_conv_Cons min_def)
    finally show ?thesis using False by simp
  qed
qed

lemma visited_upt: "visited k [0..<n] = [0..<min n (if k > 100 then 1 else 50002)]"
  using visited_upt_from [of k 0 n] by simp

lemma upt_0_3: "[0..<3] = [0, 1, 2]"
  by code_simp

subsection \<open>The example model\<close>

lemmas built_simps = built_def fresh_def example_q_def default_bg_freq_def

lemma motif_len_built: "motif_len (built sf) = Some 2"
  by (simp add: built_def)

lemma score_AC_pos: "0 < score_AC"
proof -
  have a: "ln (0.33264::real) < ln ((2 + 0.1 * 0.33264) / (2 + 0.1))" by simp
  have c: "ln (0.16736::real) < ln ((2 + 0.1 * 0.16736) / (2 + 0.1))" by simp
  from a c show ?thesis unfolding score_AC_def by linarith
qed

lemma score_CA_neg: "score_CA < 0"
proof -
  have a: "ln ((0 + 0.1 * 0.33264) / (2 + 0.1)) < ln (0.33264::real)" by simp
  have c: "ln ((0 + 0.1 * 0.16736) / (2 + 0.1)) < ln (0.16736::real)" by simp
  from a c show ?thesis unfolding score_CA_def by linarith
qed

lemma region_score_AC: "region_score (built sf) (codes ''AC'') = Inr score_AC"
  by (simp add: region_score_def score_step_def getitem_def built_simps score_AC_def)

lemma region_score_CA: "region_score (built sf) (codes ''CA'') = Inr score_CA"
  by (simp add: region_score_def score_step_def getitem_def built_simps score_CA_def)

lemma region_score_CN: "region_score (built sf) (codes ''CN'') = Inl KeyError"
  by (simp add: region_score_def score_step_def getitem_def built_simps)

lemma read_examples:
  "ReadContigs example_fs (built ''ties.fa'') = Inr ([''>h1''], [(codes ''ACACA'')])"
  "ReadContigs example_fs (built ''exact.fa'') = Inr ([''>h1''], [(codes ''AC'')])"
  "ReadContigs example_fs (built ''unknown.fa'') = Inr ([''>h1''], [(codes ''ACNAC'')])"
  by (simp_all add: ReadContigs_def open_read_def example_fs_def built_def fresh_def text_simps)

lemma analyze_built:
  "AnalyzeSequences example_fs (built sf) threshold K =
     bind_err (ReadContigs example_fs (built sf)) (\<lambda>(headers, sequences).
     bind_err (for_each (scan_sequence (built sf) threshold headers) (enumerate 0 sequences) [])
       (\<lambda>scores. Inr (built sf, del_from K (sort_reverse scores))))"
  by (simp add: AnalyzeSequences_def built_simps)

lemma scan_ties:
  "scan_sequence (built sf) 0 [''>h1''] (0, (codes ''ACACA'')) [] =
     Inr [(score_AC, ''>h1'', 0, (codes ''AC'')), (score_AC, ''>h1'', 2, (codes ''AC''))]"
  using score_AC_pos score_CA_neg
  by (simp add: scan_sequence_def motif_len_built upt_0_3 scan_window_def Let_def
        region_score_AC region_score_CA)

lemma scan_exact: "scan_sequence (built sf) 0 [''>h1''] (0, (codes ''AC'')) [] = Inr []"
  by (simp add: scan_sequence_def motif_len_built)

lemma scan_unknown: "scan_sequence (built sf) 0 [''>h1''] (0, (codes ''ACNAC'')) [] = Inl KeyError"
  using score_AC_pos
  by (simp add: scan_sequence_def motif_len_built upt_0_3 scan_window_def Let_def
        region_score_AC region_score_CN)

lemma analyze_ties:
  "AnalyzeSequences example_fs (built ''ties.fa'') 0 K =
     Inr (built ''ties.fa'',
          del_from K [(score_AC, ''>h1'', 2, (codes ''AC'')), (score_AC, ''>h1'', 0, (codes ''AC''))])"
  by (simp add: analyze_built read_examples scan_ties sort_reverse_def)

subsection \<open>Scoring a window\<close>

lemma score_loop:
  "for_each (score_step self region) ps acc = Inr s \<Longrightarrow>
     s = acc + (\<Sum>p\<leftarrow>ps. log_odds self region p)"
proof (induction ps arbitrary: acc)
  case Nil
  then show ?case by simp
next
  case (Cons p ps)
  from Cons.prems obtain acc' where
    st: "score_step self region p acc = Inr acc'" and
    rest: "for_each (score_step self region) ps acc' = Inr s"
    by (auto simp: bind_err_Inr_iff)
  from st have "acc' = acc + log_odds self region p"
    by (auto simp: score_step_def getitem_def log_odds_def Let_def bind_err_Inr_iff
             split: if_splits option.splits)
  with Cons.IH [OF rest] show ?case by simp
qed

lemma score_loop_KeyError:
  assumes "\<forall>p\<in>set ps. p < length region"
    and "\<exists>p\<in>set ps. map_of (log_q self) (region ! p, p) = None"
  shows "for_each (score_step self region) ps acc = Inl KeyError"
  using assms
proof (induction ps arbitrary: acc)
  case Nil
  then show ?case by simp
next
  case (Cons p ps)
  show ?case
  proof (cases "score_step self region p acc")
    case (Inl e)
    with Cons.prems(1) have "e = KeyError"
      by (auto simp: score_step_def getitem_def Let_def bind_err_def split: option.splits sum.splits)
    with Inl show ?thesis by simp
  next
    case (Inr acc')
    then have "map_of (log_q self) (region ! p, p) \<noteq> None"
      by (auto simp: score_step_def getitem_def Let_def split: if_splits option.splits)
    with Cons.prems have "\<exists>p\<in>set ps. map_of (log_q self) (region ! p, p) = None" by auto
    with Cons.IH [of acc'] Cons.prems(1) Inr show ?thesis by simp
  qed
qed

text \<open>
  Claim C2: for every window the scanner considers, the score is the sum over exactly the
  informational positions \<open>p\<close> of \<^verbatim>\<open>log_q[window[p], p] - log_p[window[p]]\<close>, other
  positions contributing nothing, and the window is recorded as a hit exactly when the
  score is strictly greater than the threshold. The score exists when no lookup raises;
  the hit carries the contig's header, so the contig must have one. The sum runs over the
  list \<^verbatim>\<open>self.informational\<close>, which for a list without repetitions is the sum over
  the set of informational positions.
\<close>

theorem window_score:
  assumes "region_score self (take L (drop start sequence)) = Inr s"
    and "seq_num < length headers"
  shows "s = (\<Sum>p\<leftarrow>informational self. log_odds self (take L (drop start sequence)) p)
       \<and> (distinct (informational self) \<longrightarrow>
            s = (\<Sum>p\<in>set (informational self). log_odds self (take L (drop start sequence)) p))
       \<and> scan_window self threshold headers seq_num sequence L start scores =
            Inr (if s > threshold
                 then scores @ [(s, headers ! seq_num, start, take L (drop start sequence))]
                 else scores)"
proof -
  let ?region = "take L (drop start sequence)"
  from assms(1) have sum: "s = (\<Sum>p\<leftarrow>informational self. log_odds self ?region p)"
    using score_loop [of self ?region "informational self" 0 s]
    by (simp add: region_score_def)
  moreover have "distinct (informational self) \<longrightarrow>
      s = (\<Sum>p\<in>set (informational self). log_odds self ?region p)"
    using sum by (simp add: sum_list_distinct_conv_sum_set)
  moreover have "scan_window self threshold headers seq_num sequence L start scores =
      Inr (if s > threshold then scores @ [(s, headers ! seq_num, start, ?region)] else scores)"
    using assms by (simp add: scan_window_def Let_def)
  ultimately show ?thesis by blast
qed

text \<open>In the example model the window at start position 2 of \<^verbatim>\<open>ACACA\<close> scores
  \<open>score_AC\<close>, the sum over the positions 0 and 1, and is recorded under threshold 0.\<close>

theorem window_score_witness:
  "region_score (built ''ties.fa'') (take 2 (drop 2 (codes ''ACACA''))) = Inr score_AC
   \<and> (0::nat) < length [''>h1'']
   \<and> distinct (informational (built ''ties.fa''))
   \<and> score_AC = (\<Sum>p\<in>{0, 1}. log_odds (built ''ties.fa'') (codes ''AC'') p)
   \<and> scan_window (built ''ties.fa'') 0 [''>h1''] 0 (codes ''ACACA'') 2 2 []
       = Inr [(score_AC, ''>h1'', 2, (codes ''AC''))]"
proof -
  have r: "region_score (built ''ties.fa'') (take 2 (drop 2 (codes ''ACACA''))) = Inr score_AC"
    using region_score_AC by simp
  have h: "(0::nat) < length [''>h1'']" by simp
  have d: "distinct (informational (built ''ties.fa''))" by (simp add: built_def)
  have i: "set (informational (built ''ties.fa'')) = {0, 1}" by (simp add: built_def)
  from window_score [OF r h, of 0 "[]"] r h d i score_AC_pos show ?thesis by simp
qed

subsection \<open>Which windows are scanned\<close>

text \<open>
  Claim C10: in every scan no window with a start position above 50001 is scored or
  recorded in any contig, and a contig whose index is above 100 contributes at most the
  window at start position 0. The loop over one contig runs its body exactly at the start
  positions \<open>visited\<close> lists, and those obey both bounds.
\<close>

theorem test_mode_cap:
  assumes "motif_len self = Some L"
  shows "scan_sequence self threshold headers (seq_num, sequence) scores =
           for_each (scan_window self threshold headers seq_num sequence L)
             (visited seq_num [0..<length sequence - L]) scores
       \<and> (\<forall>start\<in>set (visited seq_num [0..<length sequence - L]).
             start \<le> 50001 \<and> (seq_num > 100 \<longrightarrow> start = 0))"
  using assms by (auto simp: scan_sequence_visited visited_upt)

text \<open>For a contig of 60000 symbols and motif width 2, start position 50001 is visited and
  50002 is not; as contig number 101 it is visited at start position 0 only.\<close>

theorem test_mode_cap_witness:
  "motif_len (built ''ties.fa'') = Some 2
   \<and> 50001 \<in> set (visited 0 [0..<length (replicate 60000 (code CHR ''A'')) - 2])
   \<and> 50002 \<notin> set (visited 0 [0..<length (replicate 60000 (code CHR ''A'')) - 2])
   \<and> set (visited 101 [0..<length (replicate 60000 (code CHR ''A'')) - 2]) = {0}"
proof -
  have m: "motif_len (built ''ties.fa'') = Some 2" by (rule motif_len_built)
  have a: "50001 \<in> set (visited 0 [0..<length (replicate 60000 (code CHR ''A'')) - 2])"
    by (simp add: visited_upt)
  have b: "0 \<in> set (visited 101 [0..<length (replicate 60000 (code CHR ''A'')) - 2])"
    by (simp add: visited_upt)
  from test_mode_cap [OF m, of 0 "[]" 0 "replicate 60000 (code CHR ''A'')" "[]"]
  have c: "\<forall>start\<in>set (visited 0 [0..<length (replicate 60000 (code CHR ''A'')) - 2]). start \<le> 50001"
    by blast
  from test_mode_cap [OF m, of 0 "[]" 101 "replicate 60000 (code CHR ''A'')" "[]"]
  have d: "\<forall>start\<in>set (visited 101 [0..<length (replicate 60000 (code CHR ''A'')) - 2]). start = 0"
    by simp
  from c have "50002 \<notin> set (visited 0 [0..<length (replicate 60000 (code CHR ''A'')) - 2])"
    by fastforce
  moreover from b d
  have "set (visited 101 [0..<length (replicate 60000 (code CHR ''A'')) - 2]) = {0}" by blast
  ultimately show ?thesis using m a by blast
qed

text \<open>
  Claim C3, as stated: the scanner considers the windows at every start position from 0 to
  (contig length - L) inclusive and no others, so a contig of length exactly L contributes
  the single window at 0. In the example model (L = 2) the contig \<^verbatim>\<open>AC\<close> has a window
  that scores above the threshold 0, yet no start position is visited and the scan returns
  no hit; and in a contig of 60000 symbols start position 50002, which is within
  (contig length - L), is not visited.
\<close>

theorem exact_length_contig_not_scanned:
  "motif_len (built ''exact.fa'') = Some 2
   \<and> ReadContigs example_fs (built ''exact.fa'') = Inr ([''>h1''], [(codes ''AC'')])
   \<and> region_score (built ''exact.fa'') (take 2 (drop 0 (codes ''AC''))) = Inr score_AC
   \<and> score_AC > 0
   \<and> visited 0 [0..<length (codes ''AC'') - 2] = []
   \<and> AnalyzeSequences example_fs (built ''exact.fa'') 0 10 = Inr (built ''exact.fa'', [])
   \<and> 50002 + 2 \<le> length (replicate 60000 (code CHR ''A''))
   \<and> 50002 \<notin> set (visited 0 [0..<length (replicate 60000 (code CHR ''A'')) - 2])"
  using score_AC_pos
  by (simp add: motif_len_built read_examples region_score_AC analyze_built scan_exact
        del_from_def sort_reverse_def visited_upt)

text \<open>
  Claim C3, amended: every window the scanner considers starts at a position between 0 and
  (contig length - L), so a contig shorter than L contributes no windows; and every start
  position below (contig length - L) is considered when it is 0, or when it is at most
  50001 and the contig's index is at most 100. Nothing is said about the start position
  (contig length - L) itself.
\<close>

theorem windows_considered:
  assumes "motif_len self = Some L"
  shows "scan_sequence self threshold headers (seq_num, sequence) scores =
           for_each (scan_window self threshold headers seq_num sequence L)
             (visited seq_num [0..<length sequence - L]) scores
       \<and> (\<forall>start\<in>set (visited seq_num [0..<length sequence - L]). start + L \<le> length sequence)
       \<and> (length sequence < L \<longrightarrow> visited seq_num [0..<length sequence - L] = [])
       \<and> (\<forall>start. start + L < length sequence
                   \<and> (start = 0 \<or> (start \<le> 50001 \<and> seq_num \<le> 100))
              \<longrightarrow> start \<in> set (visited seq_num [0..<length sequence - L]))"
  using assms by (auto simp: scan_sequence_visited visited_upt)

theorem windows_considered_witness:
  "motif_len (built ''ties.fa'') = Some 2
   \<and> scan_sequence (built ''ties.fa'') 0 [''>h1''] (0, (codes ''ACACA'')) [] =
       for_each (scan_window (built ''ties.fa'') 0 [''>h1''] 0 (codes ''ACACA'') 2) [0, 1, 2] []
   \<and> set (visited 0 [0..<length (codes ''ACACA'') - 2]) = {0, 1, 2}
   \<and> (2::nat) + 2 < length (codes ''ACACA'')"
proof -
  have m: "motif_len (built ''ties.fa'') = Some 2" by (rule motif_len_built)
  have v: "visited 0 [0..<length (codes ''ACACA'') - 2] = [0, 1, 2]"
    by (simp add: upt_0_3)
  from windows_considered [OF m, of 0 "[''>h1'']" 0 "(codes ''ACACA'')" "[]"]
  have "scan_sequence (built ''ties.fa'') 0 [''>h1''] (0, (codes ''ACACA'')) [] =
          for_each (scan_window (built ''ties.fa'') 0 [''>h1''] 0 (codes ''ACACA'') 2)
            (visited 0 [0..<length (codes ''ACACA'') - 2]) []"
    by blast
  then have w: "scan_sequence (built ''ties.fa'') 0 [''>h1''] (0, (codes ''ACACA'')) [] =
          for_each (scan_window (built ''ties.fa'') 0 [''>h1''] 0 (codes ''ACACA'') 2) [0, 1, 2] []"
    by (simp only: v)
  have s: "set (visited 0 [0..<length (codes ''ACACA'') - 2]) = {0, 1, 2}"
    by (simp only: v) simp
  have l: "(2::nat) + 2 < length (codes ''ACACA'')" by simp
  from m w s l show ?thesis by blast
qed

subsection \<open>Symbols outside the model's tables\<close>

text \<open>
  Claim C7, as stated: a window with a symbol unknown to the model at an informational
  position does not raise or abort the scan; the position is skipped or the window
  rejected. In the example model the contig \<^verbatim>\<open>ACNAC\<close> has the window \<^verbatim>\<open>CN\<close> at start
  position 1, and the scan raises \<^verbatim>\<open>KeyError\<close>.
\<close>

theorem unknown_symbol_raises:
  "AnalyzeSequences example_fs (built ''unknown.fa'') 0 10 = Inl KeyError"
  by (simp add: analyze_built read_examples scan_unknown)

text \<open>
  Claim C7, amended: for every built model whose informational positions lie within the
  motif width, and every window the scan visits that has, at an informational position, a
  symbol without an entry in \<^verbatim>\<open>log_q\<close>, scoring that window raises
  \<^verbatim>\<open>KeyError\<close> and the scan ends with an exception and returns no hits.
\<close>

theorem unknown_symbol_aborts:
  assumes "log_q self \<noteq> []"
    and "motif_len self = Some L"
    and "\<forall>p\<in>set (informational self). p < L"
    and "ReadContigs fs self = Inr (headers, sequences)"
    and "seq_num < length sequences"
    and "start \<in> set (visited seq_num [0..<length (sequences ! seq_num) - L])"
    and "\<exists>p\<in>set (informational self).
           map_of (log_q self) (take L (drop start (sequences ! seq_num)) ! p, p) = None"
  shows "region_score self (take L (drop start (sequences ! seq_num))) = Inl KeyError
       \<and> (\<exists>e. AnalyzeSequences fs self threshold K = Inl e)"
proof -
  let ?sequence = "sequences ! seq_num"
  let ?region = "take L (drop start ?sequence)"
  from assms(6) have "start + L < length ?sequence"
    by (auto simp: visited_upt split: if_splits)
  then have len: "length ?region = L" by simp
  with assms(3) have "\<forall>p\<in>set (informational self). p < length ?region" by simp
  from score_loop_KeyError [OF this assms(7)]
  have rs: "region_score self ?region = Inl KeyError"
    by (simp add: region_score_def)
  then have w: "\<And>scores.
      scan_window self threshold headers seq_num ?sequence L start scores = Inl KeyError"
    by (simp add: scan_window_def Let_def)
  have seq_fails: "\<exists>e. scan_sequence self threshold headers (seq_num, ?sequence) scores = Inl e"
    for scores
  proof -
    have "\<exists>e. for_each (scan_window self threshold headers seq_num ?sequence L)
                (visited seq_num [0..<length ?sequence - L]) scores = Inl e"
      by (rule for_each_fails [OF assms(6)]) (simp add: w)
    then show ?thesis by (simp add: scan_sequence_visited [OF assms(2)])
  qed
  have "(seq_num, ?sequence) \<in> set (enumerate 0 sequences)"
    using assms(5) by (auto simp: in_set_enumerate_eq)
  then have "\<exists>e. for_each (scan_sequence self threshold headers) (enumerate 0 sequences) [] = Inl e"
    by (rule for_each_fails) (rule seq_fails)
  then have "\<exists>e. AnalyzeSequences fs self threshold K = Inl e"
    using assms(1,4) by (auto simp: AnalyzeSequences_def)
  with rs show ?thesis by blast
qed

theorem unknown_symbol_aborts_witness:
  "log_q (built ''unknown.fa'') \<noteq> []
   \<and> motif_len (built ''unknown.fa'') = Some 2
   \<and> set (informational (built ''unknown.fa'')) = {0, 1}
   \<and> ReadContigs example_fs (built ''unknown.fa'') = Inr ([''>h1''], [(codes ''ACNAC'')])
   \<and> 1 \<in> set (visited 0 [0..<length ([(codes ''ACNAC'')] ! 0) - 2])
   \<and> map_of (log_q (built ''unknown.fa'')) (take 2 (drop 1 ([(codes ''ACNAC'')] ! 0)) ! 1, 1) = None
   \<and> region_score (built ''unknown.fa'') (codes ''CN'') = Inl KeyError
   \<and> (\<exists>e. AnalyzeSequences example_fs (built ''unknown.fa'') (- 100) 5 = Inl e)"
proof -
  have a1: "log_q (built ''unknown.fa'') \<noteq> []" by (simp add: built_simps)
  have a2: "motif_len (built ''unknown.fa'') = Some 2" by (rule motif_len_built)
  have i: "set (informational (built ''unknown.fa'')) = {0, 1}" by (simp add: built_def)
  then have a3: "\<forall>p\<in>set (informational (built ''unknown.fa'')). p < 2" by simp
  have a4: "ReadContigs example_fs (built ''unknown.fa'') = Inr ([''>h1''], [(codes ''ACNAC'')])"
    by (simp add: read_examples)
  have a5: "(0::nat) < length [(codes ''ACNAC'')]" by simp
  have a6: "1 \<in> set (visited 0 [0..<length ([(codes ''ACNAC'')] ! 0) - 2])"
    by (simp add: upt_0_3)
  have m: "map_of (log_q (built ''unknown.fa'')) (take 2 (drop 1 ([(codes ''ACNAC'')] ! 0)) ! 1, 1) = None"
    by (simp add: built_simps)
  then have a7: "\<exists>p\<in>set (informational (built ''unknown.fa'')).
           map_of (log_q (built ''unknown.fa'')) (take 2 (drop 1 ([(codes ''ACNAC'')] ! 0)) ! p, p) = None"
    using i by blast
  from unknown_symbol_aborts [OF a1 a2 a3 a4 a5 a6 a7, of "- 100" 5]
  show ?thesis using a1 a2 i a4 a6 m by simp
qed

subsection \<open>Ranking and truncation\<close>

lemma ranks_before_iff: "ranks_before a b \<longleftrightarrow> b \<le> a"
  by (cases a; cases b) (auto simp: ranks_before_def)

lemma sort_reverse_ranked: "sorted_wrt ranks_before (sort_reverse scores)"
proof -
  have "sorted_wrt (\<lambda>x y. y \<le> x) (rev (sort (rev scores)))"
    by (simp add: sorted_wrt_rev)
  then show ?thesis
    by (simp add: sort_reverse_def ranks_before_iff [abs_def])
qed

lemma mset_sort_reverse: "mset (sort_reverse scores) = mset scores"
  by (simp add: sort_reverse_def)

text \<open>
  Claim C4, as stated: the returned list is sorted by score descending, equal scores in the
  ascending order of header, start position and window text, and cut to the first K
  entries. In the example model the contig \<^verbatim>\<open>ACACA\<close> has two hits of equal score, at
  start positions 0 and 2; the top 2 are returned with start position 2 first.
\<close>

theorem ties_rank_by_descending_offset:
  "AnalyzeSequences example_fs (built ''ties.fa'') 0 2 =
     Inr (built ''ties.fa'', [(score_AC, ''>h1'', 2, (codes ''AC'')), (score_AC, ''>h1'', 0, (codes ''AC''))])
   \<and> AnalyzeSequences example_fs (built ''ties.fa'') 0 2 \<noteq>
     Inr (built ''ties.fa'', [(score_AC, ''>h1'', 0, (codes ''AC'')), (score_AC, ''>h1'', 2, (codes ''AC''))])"
  by (simp add: analyze_ties del_from_def)

text \<open>
  Claim C4, amended: for K at least 0 the returned list is the first K entries of a
  rearrangement of all recorded hits that is sorted by score descending, equal scores in
  the descending order of header, then start position, then window text.
\<close>

theorem ranking:
  assumes "AnalyzeSequences fs self0 threshold K = Inr (self, result)" and "0 \<le> K"
  shows "\<exists>headers sequences scores ranked.
           ReadContigs fs self = Inr (headers, sequences)
         \<and> for_each (scan_sequence self threshold headers) (enumerate 0 sequences) [] = Inr scores
         \<and> mset ranked = mset scores
         \<and> sorted_wrt ranks_before ranked
         \<and> result = take (nat K) ranked"
proof -
  from assms(1) obtain headers sequences scores where
    r: "ReadContigs fs self = Inr (headers, sequences)" and
    s: "for_each (scan_sequence self threshold headers) (enumerate 0 sequences) [] = Inr scores" and
    res: "result = del_from K (sort_reverse scores)"
    by (auto simp: AnalyzeSequences_def bind_err_Inr_iff)
  from res assms(2) have "result = take (nat K) (sort_reverse scores)"
    by (simp add: del_from_def)
  with r s mset_sort_reverse sort_reverse_ranked show ?thesis by blast
qed

theorem ranking_witness:
  "AnalyzeSequences example_fs (built ''ties.fa'') 0 1 =
     Inr (built ''ties.fa'', [(score_AC, ''>h1'', 2, (codes ''AC''))])
   \<and> (0::int) \<le> 1
   \<and> (\<exists>ranked. mset ranked = mset [(score_AC, ''>h1'', 0, (codes ''AC'')), (score_AC, ''>h1'', 2, (codes ''AC''))]
         \<and> sorted_wrt ranks_before ranked
         \<and> [(score_AC, ''>h1'', 2, (codes ''AC''))] = take (nat 1) ranked)"
proof -
  have a: "AnalyzeSequences example_fs (built ''ties.fa'') 0 1 =
     Inr (built ''ties.fa'', [(score_AC, ''>h1'', 2, (codes ''AC''))])"
    by (simp add: analyze_ties del_from_def)
  have k: "(0::int) \<le> 1" by simp
  from ranking [OF a k] show ?thesis
    using a k by (auto simp: read_examples scan_ties)
qed

subsection \<open>Counting the training set\<close>

lemma count_of_count_symbol:
  "count_of (count_symbol key counts) k = count_of counts k + (if k = key then 1 else 0)"
  by (auto simp: count_of_def count_symbol_def update_conv' split: option.splits)

lemma count_of_enumerate:
  "count_of (fold (\<lambda>(position, symbol). count_symbol (symbol, position)) (enumerate n motif) counts) (s, p)
     = count_of counts (s, p) + (if n \<le> p \<and> p < n + length motif \<and> motif ! (p - n) = s then 1 else 0)"
proof (induction motif arbitrary: n counts)
  case Nil
  then show ?case by simp
next
  case (Cons c cs)
  let ?f = "\<lambda>(position, symbol). count_symbol (symbol, position)"
  have "fold ?f (enumerate n (c # cs)) counts
          = fold ?f (enumerate (Suc n) cs) (count_symbol (c, n) counts)"
    by simp
  then have "count_of (fold ?f (enumerate n (c # cs)) counts) (s, p)
          = count_of (count_symbol (c, n) counts) (s, p)
            + (if Suc n \<le> p \<and> p < Suc n + length cs \<and> cs ! (p - Suc n) = s then 1 else 0)"
    by (simp only: Cons.IH)
  also have "\<dots> = count_of counts (s, p)
            + (if n \<le> p \<and> p < n + length (c # cs) \<and> (c # cs) ! (p - n) = s then 1 else 0)"
    by (auto simp: count_of_count_symbol nth_Cons' Suc_diff_le)
  finally show ?case .
qed

lemma count_of_fold_motifs:
  "count_of (fold (\<lambda>motif counts.
             fold (\<lambda>(position, symbol). count_symbol (symbol, position)) (enumerate 0 motif) counts)
       motifs counts) (s, p)
   = count_of counts (s, p) + occurrences motifs s p"
  by (induction motifs arbitrary: counts) (simp_all add: count_of_enumerate occurrences_def)

lemma count_of_count_motifs: "count_of (count_motifs motifs) (s, p) = occurrences motifs s p"
  by (simp add: count_motifs_def count_of_fold_motifs) (simp add: count_of_def)

subsection \<open>Filling the model tables\<close>

lemma fill_entry_Inr:
  assumes "fill_entry self B s p (c, lq, qq) = Inr (c', lq', qq')"
  shows "count_of c' = count_of c
       \<and> 0 < raw_frequency self B (count_of c) (s, p)
       \<and> map_of qq' = (map_of qq)((s, p) \<mapsto> raw_frequency self B (count_of c) (s, p))
       \<and> map_of lq' = (map_of lq)((s, p) \<mapsto> ln (raw_frequency self B (count_of c) (s, p)))"
proof (cases "map_of c (s, p)")
  case None
  then have z: "count_of c (s, p) = 0" by (simp add: count_of_def)
  from None have c1: "count_of (AList.update (s, p) 0 c) = count_of c"
    by (auto simp: count_of_def update_conv' fun_eq_iff)
  from assms show ?thesis
    by (auto simp: fill_entry_def Let_def None z c1 update_conv' bind_err_Inr_iff getitem_def
          py_div_def py_log_def raw_frequency_def split: option.splits if_splits)
next
  case (Some x)
  then have z: "count_of c (s, p) = x" by (simp add: count_of_def)
  from assms show ?thesis
    by (auto simp: fill_entry_def Let_def Some z update_conv' bind_err_Inr_iff getitem_def
          py_div_def py_log_def raw_frequency_def split: option.splits if_splits)
qed

lemma fill_positions:
  assumes "for_each (fill_entry self B s) ps (c, lq, qq) = Inr (c', lq', qq')"
  shows "count_of c' = count_of c
       \<and> (\<forall>p\<in>set ps. 0 < raw_frequency self B (count_of c) (s, p))
       \<and> (\<forall>k. map_of qq' k = (if fst k = s \<and> snd k \<in> set ps
                                then Some (raw_frequency self B (count_of c) k) else map_of qq k))
       \<and> (\<forall>k. map_of lq' k = (if fst k = s \<and> snd k \<in> set ps
                                then Some (ln (raw_frequency self B (count_of c) k)) else map_of lq k))"
  using assms
proof (induction ps arbitrary: c lq qq)
  case Nil
  then show ?case by simp
next
  case (Cons p ps)
  from Cons.prems obtain c1 lq1 qq1 where
    e: "fill_entry self B s p (c, lq, qq) = Inr (c1, lq1, qq1)" and
    r: "for_each (fill_entry self B s) ps (c1, lq1, qq1) = Inr (c', lq', qq')"
    by (auto simp: bind_err_Inr_iff)
  note E = fill_entry_Inr [OF e]
  note R = Cons.IH [OF r]
  from E R show ?case by (auto simp: fun_upd_def)
qed

lemma fill_symbols:
  assumes "for_each (\<lambda>symbol tables.
              bind_err (py_range (motif_len self)) (\<lambda>positions.
                for_each (fill_entry self B symbol) positions tables))
            ss (c, lq, qq) = Inr (c', lq', qq')"
    and "motif_len self = Some L"
  shows "count_of c' = count_of c
       \<and> (\<forall>s\<in>set ss. \<forall>p<L. 0 < raw_frequency self B (count_of c) (s, p))
       \<and> (\<forall>k. map_of qq' k = (if fst k \<in> set ss \<and> snd k < L
                                then Some (raw_frequency self B (count_of c) k) else map_of qq k))
       \<and> (\<forall>k. map_of lq' k = (if fst k \<in> set ss \<and> snd k < L
                                then Some (ln (raw_frequency self B (count_of c) k)) else map_of lq k))"
  using assms(1)
proof (induction ss arbitrary: c lq qq)
  case Nil
  then show ?case by simp
next
  case (Cons s ss)
  from Cons.prems assms(2) obtain c1 lq1 qq1 where
    e: "for_each (fill_entry self B s) [0..<L] (c, lq, qq) = Inr (c1, lq1, qq1)" and
    r: "for_each (\<lambda>symbol tables.
              bind_err (py_range (motif_len self)) (\<lambda>positions.
                for_each (fill_entry self B symbol) positions tables))
            ss (c1, lq1, qq1) = Inr (c', lq', qq')"
    by (auto simp: bind_err_Inr_iff py_range_def)
  note E = fill_positions [OF e]
  note R = Cons.IH [OF r]
  from E R show ?case by auto
qed

subsection \<open>The informational positions\<close>

lemma information_loop:
  "for_each (information_step self p) ss acc = Inr v \<Longrightarrow>
     v = acc + (\<Sum>s\<leftarrow>ss. q_at self s p * log 2 (q_at self s p))"
proof (induction ss arbitrary: acc)
  case Nil
  then show ?case by simp
next
  case (Cons s ss)
  from Cons.prems obtain acc' where
    st: "information_step self p s acc = Inr acc'" and
    rest: "for_each (information_step self p) ss acc' = Inr v"
    by (auto simp: bind_err_Inr_iff)
  from st have "acc' = acc + q_at self s p * log 2 (q_at self s p)"
    by (auto simp: information_step_def getitem_def py_log2_def q_at_def bind_err_Inr_iff
             split: option.splits if_splits)
  with Cons.IH [OF rest] show ?case by simp
qed

lemma information_loop_ok:
  "\<forall>s\<in>set ss. \<exists>x. map_of (q self) (s, p) = Some x \<and> 0 < x \<Longrightarrow>
     for_each (information_step self p) ss acc =
       Inr (acc + (\<Sum>s\<leftarrow>ss. q_at self s p * log 2 (q_at self s p)))"
proof (induction ss arbitrary: acc)
  case Nil
  then show ?case by simp
next
  case (Cons s ss)
  from Cons.prems obtain x where x: "map_of (q self) (s, p) = Some x" "0 < x" by auto
  then have "information_step self p s acc = Inr (acc + q_at self s p * log 2 (q_at self s p))"
    by (simp add: information_step_def getitem_def py_log2_def q_at_def)
  with Cons show ?case by (simp add: add.assoc)
qed

lemma information_Inr: "information self p = Inr v \<Longrightarrow> v = information_sum self p"
  by (auto simp: information_def information_sum_def dest: information_loop)

lemma information_ok:
  "\<forall>s\<in>set (keys (bg_freq self)). \<exists>x. map_of (q self) (s, p) = Some x \<and> 0 < x \<Longrightarrow>
     information self p = Inr (information_sum self p)"
  by (simp add: information_def information_sum_def information_loop_ok)

lemma information_cong:
  "q self' = q self \<Longrightarrow> bg_freq self' = bg_freq self \<Longrightarrow> information self' = information self"
proof -
  assume a: "q self' = q self" "bg_freq self' = bg_freq self"
  have st: "information_step self' = information_step self"
    by (intro ext) (simp add: information_step_def a)
  show ?thesis
    by (intro ext) (simp add: information_def st a)
qed

lemma informational_body_Inr:
  "informational_body p self = Inr self1 \<longleftrightarrow>
     (\<exists>v. information self p = Inr v
        \<and> self1 = (if v > 1.25 then self\<lparr> informational := informational self @ [p] \<rparr>
                    else self))"
  by (auto simp: informational_body_def bind_err_Inr_iff)

lemma informational_loop:
  assumes "for_each informational_body ps self = Inr self'"
  shows "(\<forall>p\<in>set ps. information self p = Inr (information_sum self p))
       \<and> self' = self\<lparr> informational :=
                    informational self @ filter (\<lambda>p. 1.25 < information_sum self p) ps \<rparr>"
  using assms
proof (induction ps arbitrary: self)
  case Nil
  then show ?case by simp
next
  case (Cons p ps)
  from Cons.prems obtain self1 where
    b: "informational_body p self = Inr self1" and
    r: "for_each informational_body ps self1 = Inr self'"
    by (auto simp: bind_err_Inr_iff)
  from b obtain v where
    i: "information self p = Inr v" and
    s1: "self1 = (if v > 1.25 then self\<lparr> informational := informational self @ [p] \<rparr> else self)"
    by (auto simp: informational_body_Inr)
  from i have v: "v = information_sum self p" by (rule information_Inr)
  from s1 have same: "q self1 = q self" "bg_freq self1 = bg_freq self" by auto
  then have inf: "information self1 = information self" by (rule information_cong)
  from same have sums: "information_sum self1 = information_sum self"
    by (simp add: information_sum_def q_at_def fun_eq_iff)
  note IH = Cons.IH [OF r, unfolded inf sums]
  from IH i v s1 show ?case by auto
qed

lemma GetInformational_Inr:
  assumes "GetInformational self = Inr self'"
  shows "\<exists>L. motif_len self = Some L
           \<and> (\<forall>p<L. information self p = Inr (information_sum self p))
           \<and> self' = self\<lparr> goodlist := [], informational :=
                        informational self @ filter (\<lambda>p. 1.25 < information_sum self p) [0..<L] \<rparr>"
proof -
  let ?s = "self\<lparr> goodlist := [] \<rparr>"
  from assms obtain L where L: "motif_len self = Some L" and
    loop: "for_each informational_body [0..<L] ?s = Inr self'"
    by (auto simp: GetInformational_def Let_def bind_err_Inr_iff py_range_def split: option.splits)
  have inf: "information ?s = information self" by (rule information_cong) simp_all
  have sums: "information_sum ?s = information_sum self"
    by (simp add: information_sum_def q_at_def fun_eq_iff)
  note loop' = informational_loop [OF loop, unfolded inf sums]
  from loop' L show ?thesis by auto
qed

lemma informational_loop_ok:
  assumes "\<forall>p\<in>set ps. information self p = Inr (information_sum self p)"
  shows "for_each informational_body ps self =
           Inr (self\<lparr> informational :=
                  informational self @ filter (\<lambda>p. 1.25 < information_sum self p) ps \<rparr>)"
  using assms
proof (induction ps arbitrary: self)
  case Nil
  then show ?case by simp
next
  case (Cons p ps)
  let ?s1 = "if 1.25 < information_sum self p
             then self\<lparr> informational := informational self @ [p] \<rparr> else self"
  have same: "q ?s1 = q self" "bg_freq ?s1 = bg_freq self" by auto
  then have inf: "information ?s1 = information self" by (rule information_cong)
  from same have sums: "information_sum ?s1 = information_sum self"
    by (simp add: information_sum_def q_at_def fun_eq_iff)
  from Cons.prems have "\<forall>p\<in>set ps. information ?s1 p = Inr (information_sum ?s1 p)"
    unfolding inf sums by simp
  note IH = Cons.IH [OF this, unfolded sums]
  from Cons.prems have "informational_body p self = Inr ?s1"
    by (simp add: informational_body_Inr)
  then have "for_each informational_body (p # ps) self = for_each informational_body ps ?s1"
    by simp
  with IH show ?case by (auto split: if_splits)
qed

lemma GetInformational_ok:
  assumes "motif_len self = Some L"
    and "\<forall>p<L. information self p = Inr (information_sum self p)"
  shows "GetInformational self =
           Inr (self\<lparr> goodlist := [], informational :=
                  informational self @ filter (\<lambda>p. 1.25 < information_sum self p) [0..<L] \<rparr>)"
proof -
  let ?s = "self\<lparr> goodlist := [] \<rparr>"
  have inf: "information ?s = information self" by (rule information_cong) simp_all
  have sums: "information_sum ?s = information_sum self"
    by (simp add: information_sum_def q_at_def fun_eq_iff)
  from assms(2) have "\<forall>p\<in>set [0..<L]. information ?s p = Inr (information_sum ?s p)"
    unfolding inf sums by simp
  note loop = informational_loop_ok [OF this, unfolded sums]
  have "GetInformational self = for_each informational_body [0..<L] ?s"
    by (simp add: GetInformational_def Let_def py_range_def assms(1))
  also have "\<dots> = Inr (?s\<lparr> informational :=
                  informational ?s @ filter (\<lambda>p. 1.25 < information_sum self p) [0..<L] \<rparr>)"
    by (rule loop)
  finally show ?thesis by simp
qed

subsection \<open>What the loader leaves behind\<close>

lemma motif_search_Some:
  "motif_search line = Some motif \<Longrightarrow> motif \<noteq> [] \<and> list_all is_nucleotide motif"
  by (induction line) (auto split: if_splits)

lemma upper_char_nucleotides:
  "upper_char CHR ''A'' = [code CHR ''A'']" "upper_char CHR ''C'' = [code CHR ''C'']"
  "upper_char CHR ''G'' = [code CHR ''G'']" "upper_char CHR ''T'' = [code CHR ''T'']"
  "upper_char CHR ''a'' = [code CHR ''A'']" "upper_char CHR ''c'' = [code CHR ''C'']"
  "upper_char CHR ''g'' = [code CHR ''G'']" "upper_char CHR ''t'' = [code CHR ''T'']"
  by (simp_all add: upper_char_def code_def)

lemma upper_nucleotide:
  "is_nucleotide c \<Longrightarrow> length (upper_char c) = 1 \<and> set (upper_char c) \<subseteq> set (codes ''ACGT'')"
  by (auto simp: is_nucleotide_def upper_char_nucleotides codes_def)

lemma upper_motif:
  "list_all is_nucleotide motif \<Longrightarrow>
     length (upper motif) = length motif \<and> set (upper motif) \<subseteq> set (codes ''ACGT'')"
proof (induction motif)
  case Nil
  then show ?case by (simp add: upper_def)
next
  case (Cons c cs)
  then have "is_nucleotide c" and "list_all is_nucleotide cs" by simp_all
  with Cons.IH upper_nucleotide [of c] show ?case by (simp add: upper_def)
qed

lemma get_motif_lines_rectangular:
  assumes "get_motif_lines ls ml seqs = Inr (ml', seqs')"
    and "\<forall>m\<in>set seqs. ml = Some (length m) \<and> m \<noteq> [] \<and> set m \<subseteq> set (codes ''ACGT'')"
  shows "\<forall>m\<in>set seqs'. ml' = Some (length m) \<and> m \<noteq> [] \<and> set m \<subseteq> set (codes ''ACGT'')"
  using assms
proof (induction ls arbitrary: ml seqs)
  case Nil
  then show ?case by simp
next
  case (Cons raw rest)
  show ?case
  proof (cases "motif_search (strip raw)")
    case None
    with Cons.prems(1) have "get_motif_lines rest ml seqs = Inr (ml', seqs')" by simp
    from Cons.IH [OF this Cons.prems(2)] show ?thesis .
  next
    case (Some motif)
    let ?ml = "if ml = None \<or> ml = Some 0 then Some (length motif) else ml"
    from motif_search_Some [OF Some] have ne: "motif \<noteq> []" and nt: "list_all is_nucleotide motif"
      by simp_all
    from Cons.prems(1) Some have eq: "?ml = Some (length motif)"
      and rest: "get_motif_lines rest ?ml (seqs @ [upper motif]) = Inr (ml', seqs')"
      by (auto simp: Let_def split: if_splits)
    have "\<forall>m\<in>set (seqs @ [upper motif]). ?ml = Some (length m) \<and> m \<noteq> [] \<and> set m \<subseteq> set (codes ''ACGT'')"
    proof
      fix m assume "m \<in> set (seqs @ [upper motif])"
      then consider "m \<in> set seqs" | "m = upper motif" by auto
      then show "?ml = Some (length m) \<and> m \<noteq> [] \<and> set m \<subseteq> set (codes ''ACGT'')"
      proof cases
        case 1
        with Cons.prems(2) have "ml = Some (length m)" "m \<noteq> []" "set m \<subseteq> set (codes ''ACGT'')" by auto
        then show ?thesis by auto
      next
        case 2
        from upper_motif [OF nt] have l: "length (upper motif) = length motif"
          and sub: "set (upper motif) \<subseteq> set (codes ''ACGT'')" by simp_all
        from l ne have "upper motif \<noteq> []" by auto
        with 2 eq l sub show ?thesis by simp
      qed
    qed
    from Cons.IH [OF rest this] show ?thesis .
  qed
qed

lemma GetMotif_training_ok:
  assumes "GetMotif fs self0 = Inr self1" and "set (codes ''ACGT'') \<subseteq> set (keys (bg_freq self0))"
  shows "training_ok self1"
proof -
  from assms(1) obtain ml seqs where
    g: "get_motif_lines (file_lines (the (fs (motif_input self0)))) None [] = Inr (ml, seqs)" and
    s: "self1 = self0\<lparr> motif_sequences := seqs, N := length seqs, motif_len := ml \<rparr>"
    by (auto simp: GetMotif_def open_read_def bind_err_Inr_iff split: option.splits)
  from get_motif_lines_rectangular [OF g] have
    "\<forall>m\<in>set seqs. ml = Some (length m) \<and> m \<noteq> [] \<and> set m \<subseteq> set (codes ''ACGT'')" by simp
  with assms(2) show ?thesis unfolding s training_ok_def by auto
qed

subsection \<open>What a build that returns has computed\<close>

lemma log2_4: "log 2 (4::real) = 2"
proof -
  have "log 2 ((2::real) ^ 2) = 2" by (subst log_nat_power) simp_all
  then show ?thesis by simp
qed

lemma GetMotif_fields:
  "GetMotif fs self0 = Inr self1 \<Longrightarrow>
     bg_freq self1 = bg_freq self0 \<and> informational self1 = informational self0
     \<and> q self1 = q self0 \<and> log_q self1 = log_q self0 \<and> log_p self1 = log_p self0"
  by (auto simp: GetMotif_def bind_err_Inr_iff)

lemma raw_frequency_count_motifs:
  "raw_frequency self B (count_of (count_motifs (motif_sequences self))) (s, p)
     = adjusted_frequency self B s p"
  by (simp add: raw_frequency_def adjusted_frequency_def count_of_count_motifs)

lemma MakePSSM_Inr:
  assumes "MakePSSM fs self0 B0 = Inr self"
  shows "\<exists>self1 L.
           (if motif_sequences self0 = [] then GetMotif fs self0 = Inr self1 else self1 = self0)
         \<and> motif_len self1 = Some L
         \<and> (\<forall>s\<in>set (keys (bg_freq self1)). \<forall>p<L.
               0 < adjusted_frequency self1 (pseudocount_value self1 B0) s p
             \<and> map_of (q self) (s, p) = Some (adjusted_frequency self1 (pseudocount_value self1 B0) s p)
             \<and> map_of (log_q self) (s, p)
                 = Some (ln (adjusted_frequency self1 (pseudocount_value self1 B0) s p)))
         \<and> (\<forall>p<L. information self p = Inr (information_sum self p))
         \<and> informational self
              = informational self1 @ filter (\<lambda>p. 1.25 < information_sum self p) [0..<L]
         \<and> bg_freq self = bg_freq self1 \<and> log_p self = log_p self1 \<and> N self = N self1
         \<and> motif_len self = motif_len self1 \<and> motif_sequences self = motif_sequences self1"
proof -
  from assms obtain self1 c lq qq where
    load: "if motif_sequences self0 = [] then GetMotif fs self0 = Inr self1 else self1 = self0" and
    fill: "for_each (\<lambda>symbol tables.
              bind_err (py_range (motif_len self1)) (\<lambda>positions.
                for_each (fill_entry self1 (pseudocount_value self1 B0) symbol) positions tables))
            (keys (bg_freq self1)) (count_motifs (motif_sequences self1), log_q self1, q self1)
          = Inr (c, lq, qq)" and
    gi: "GetInformational (self1\<lparr> log_q := lq, q := qq \<rparr>) = Inr self"
    by (auto simp: MakePSSM_def Let_def bind_err_Inr_iff pseudocount_value_def split: if_splits)
  let ?s2 = "self1\<lparr> log_q := lq, q := qq \<rparr>"
  from GetInformational_Inr [OF gi] obtain L where
    L: "motif_len self1 = Some L" and
    inf2: "\<forall>p<L. information ?s2 p = Inr (information_sum ?s2 p)" and
    self: "self = ?s2\<lparr> goodlist := [], informational :=
                     informational ?s2 @ filter (\<lambda>p. 1.25 < information_sum ?s2 p) [0..<L] \<rparr>"
    by auto
  from self have q: "q self = qq" and lq: "log_q self = lq" and bg: "bg_freq self = bg_freq self1"
    and rest: "log_p self = log_p self1" "N self = N self1" "motif_len self = motif_len self1"
      "motif_sequences self = motif_sequences self1"
    by simp_all
  have inf: "information ?s2 = information self"
    by (rule information_cong [symmetric]) (simp_all add: q bg)
  have sums: "information_sum ?s2 = information_sum self"
    by (simp add: information_sum_def q_at_def fun_eq_iff q bg)
  note F = fill_symbols [OF fill L]
  have entries: "\<forall>s\<in>set (keys (bg_freq self1)). \<forall>p<L.
               0 < adjusted_frequency self1 (pseudocount_value self1 B0) s p
             \<and> map_of (q self) (s, p) = Some (adjusted_frequency self1 (pseudocount_value self1 B0) s p)
             \<and> map_of (log_q self) (s, p)
                 = Some (ln (adjusted_frequency self1 (pseudocount_value self1 B0) s p))"
    using F by (simp add: q lq raw_frequency_count_motifs)
  have "informational self
          = informational ?s2 @ filter (\<lambda>p. 1.25 < information_sum ?s2 p) [0..<L]"
    by (subst self) simp
  then have infl: "informational self
          = informational self1 @ filter (\<lambda>p. 1.25 < information_sum self p) [0..<L]"
    unfolding sums by simp
  from load L entries inf2 [unfolded inf sums] infl bg rest show ?thesis by blast
qed

lemma indicator_sum:
  "distinct ks \<Longrightarrow> c \<in> set ks \<Longrightarrow> (\<Sum>s\<leftarrow>ks. if c = s then 1 else 0) = (1::nat)"
  by (induction ks) auto

lemma occurrences_sum:
  assumes "distinct ks" and "\<forall>m\<in>set ms. p < length m \<and> m ! p \<in> set ks"
  shows "(\<Sum>s\<leftarrow>ks. occurrences ms s p) = length ms"
  using assms(2)
proof (induction ms)
  case Nil
  then show ?case by (simp add: occurrences_def)
next
  case (Cons m ms)
  have "(\<Sum>s\<leftarrow>ks. occurrences (m # ms) s p)
          = (\<Sum>s\<leftarrow>ks. (if m ! p = s then 1 else 0) + occurrences ms s p)"
    using Cons.prems by (intro arg_cong [where f = sum_list] map_cong) (auto simp: occurrences_def)
  also have "\<dots> = (\<Sum>s\<leftarrow>ks. if m ! p = s then 1 else 0) + (\<Sum>s\<leftarrow>ks. occurrences ms s p)"
    by (simp add: sum_list_addf)
  also have "\<dots> = 1 + length ms"
    using Cons assms(1) by (simp add: indicator_sum)
  finally show ?case by simp
qed

lemma values_of_keys:
  "distinct (map fst xs) \<Longrightarrow> map (\<lambda>s. the (map_of xs s)) (map fst xs) = map snd xs"
  by (induction xs) (auto simp: rev_image_eqI)

subsection \<open>The example model is the model the code builds\<close>

lemma log2_lower:
  assumes "0 < x" and "1 / 2 ^ k \<le> x ^ n" and "0 < n"
  shows "- (real k / real n) \<le> log 2 x"
proof -
  have "log 2 (1 / 2 ^ k) \<le> log 2 (x ^ n)"
    using assms(1,2) by (subst log_le_cancel_iff) simp_all
  moreover have "log 2 (1 / 2 ^ k) = - real k"
    by (simp add: log_divide log_nat_power)
  moreover have "log 2 (x ^ n) = real n * log 2 x"
    using assms(1) by (simp add: log_nat_power)
  ultimately have "- real k \<le> real n * log 2 x" by simp
  then show ?thesis using assms(3) by (simp add: field_simps)
qed

lemma xlog2x_lower:
  assumes "0 < x" and "1 / 2 ^ k \<le> x ^ n" and "0 < n"
  shows "- (real k / real n) * x \<le> x * log 2 x"
proof -
  from log2_lower [OF assms] assms(1)
  have "x * (- (real k / real n)) \<le> x * log 2 x"
    by (intro mult_left_mono) simp_all
  then show ?thesis by (simp add: mult.commute)
qed

lemma example_information:
  assumes "q self = example_q" and "bg_freq self = default_bg_freq"
  shows "1.25 < information_sum self 0" and "1.25 < information_sum self 1"
proof -
  define a :: real where "a = (2 + 0.1 * 0.33264) / (2 + 0.1)"
  define b :: real where "b = (0 + 0.1 * 0.33264) / (2 + 0.1)"
  define c :: real where "c = (0 + 0.1 * 0.16736) / (2 + 0.1)"
  define d :: real where "d = (2 + 0.1 * 0.16736) / (2 + 0.1)"
  have s0: "information_sum self 0 = 2 + (a * log 2 a + (b * log 2 b + (c * log 2 c + c * log 2 c)))"
    by (simp add: information_sum_def q_at_def assms keys_def default_bg_freq_def example_q_def
          a_def b_def c_def)
  have s1: "information_sum self 1 = 2 + (b * log 2 b + (b * log 2 b + (c * log 2 c + d * log 2 d)))"
    by (simp add: information_sum_def q_at_def assms keys_def default_bg_freq_def example_q_def
          b_def c_def d_def)
  have A: "- (real 1 / real 4) * a \<le> a * log 2 a"
    by (rule xlog2x_lower) (simp_all add: a_def power_divide)
  have B: "- (real 6 / real 1) * b \<le> b * log 2 b"
    by (rule xlog2x_lower) (simp_all add: b_def)
  have C: "- (real 7 / real 1) * c \<le> c * log 2 c"
    by (rule xlog2x_lower) (simp_all add: c_def)
  have D: "- (real 1 / real 4) * d \<le> d * log 2 d"
    by (rule xlog2x_lower) (simp_all add: d_def power_divide)
  have a: "a \<le> 0.97" and b: "b \<le> 0.016" and c: "c \<le> 0.008" and d: "d \<le> 0.97"
    by (simp_all add: a_def b_def c_def d_def)
  from A B C a b c show "1.25 < information_sum self 0" unfolding s0 by simp
  from D B C d b c show "1.25 < information_sum self 1" unfolding s1 by simp
qed

lemma upt_0_2: "[0..<2] = [0, 1]"
  by code_simp

lemma getmotif_example: "GetMotif example_fs (fresh ''motifs.txt'' sf) = Inr (loaded sf)"
  by (simp add: GetMotif_def open_read_def example_fs_def fresh_def loaded_def text_simps
        is_nucleotide_def Let_def)

lemma count_example:
  "count_motifs [(codes ''AC''), (codes ''AC'')] = [((code CHR ''A'', 0), 2), ((code CHR ''C'', 1), 2)]"
  by (simp add: count_motifs_def count_symbol_def codes_def)

lemma fill_example:
  assumes "motif_sequences self = [(codes ''AC''), (codes ''AC'')]" "N self = 2" "motif_len self = Some 2"
    "bg_freq self = default_bg_freq"
    "log_q self = [] \<and> q self = [] \<or> log_q self = map (\<lambda>(k, x). (k, ln x)) example_q \<and> q self = example_q"
  shows "\<exists>c. for_each (\<lambda>symbol tables.
              bind_err (py_range (motif_len self)) (\<lambda>positions.
                for_each (fill_entry self 0.1 symbol) positions tables))
            (keys (bg_freq self)) (count_motifs (motif_sequences self), log_q self, q self)
          = Inr (c, map (\<lambda>(k, x). (k, ln x)) example_q, example_q)"
  using assms(5)
  by (auto simp: assms(1-4) count_example keys_def default_bg_freq_def py_range_def upt_0_2
        fill_entry_def getitem_def py_div_def py_log_def example_q_def)

lemma build_loaded:
  assumes "motif_sequences self = [(codes ''AC''), (codes ''AC'')]" "N self = 2" "motif_len self = Some 2"
    "bg_freq self = default_bg_freq"
    "log_q self = [] \<and> q self = [] \<or> log_q self = map (\<lambda>(k, x). (k, ln x)) example_q \<and> q self = example_q"
  shows "MakePSSM fs self (Num 0.1) =
           Inr (self\<lparr> log_q := map (\<lambda>(k, x). (k, ln x)) example_q, q := example_q,
                       goodlist := [], informational := informational self @ [0, 1] \<rparr>)"
proof -
  let ?s2 = "self\<lparr> log_q := map (\<lambda>(k, x). (k, ln x)) example_q, q := example_q \<rparr>"
  from fill_example [OF assms] obtain c where
    fill: "for_each (\<lambda>symbol tables.
              bind_err (py_range (motif_len self)) (\<lambda>positions.
                for_each (fill_entry self 0.1 symbol) positions tables))
            (keys (bg_freq self)) (count_motifs (motif_sequences self), log_q self, q self)
          = Inr (c, map (\<lambda>(k, x). (k, ln x)) example_q, example_q)"
    by blast
  have "MakePSSM fs self (Num 0.1) =
      bind_err (for_each (\<lambda>symbol tables.
              bind_err (py_range (motif_len self)) (\<lambda>positions.
                for_each (fill_entry self 0.1 symbol) positions tables))
            (keys (bg_freq self)) (count_motifs (motif_sequences self), log_q self, q self))
        (\<lambda>(counts, lq, qq). GetInformational (self\<lparr> log_q := lq, q := qq \<rparr>))"
    by (simp add: MakePSSM_def Let_def assms(1))
  also have "\<dots> = GetInformational ?s2"
    by (simp only: fill bind_err_simps prod.case)
  also have "\<dots> = Inr (?s2\<lparr> goodlist := [], informational :=
                  informational ?s2 @ filter (\<lambda>p. 1.25 < information_sum ?s2 p) [0..<2] \<rparr>)"
  proof (rule GetInformational_ok)
    show "motif_len ?s2 = Some 2" by (simp add: assms(3))
    show "\<forall>p<2. information ?s2 p = Inr (information_sum ?s2 p)"
    proof (intro allI impI)
      fix p :: nat assume "p < 2"
      then have "p = 0 \<or> p = 1" by auto
      then have "\<forall>s\<in>set (keys (bg_freq ?s2)).
          map_of (q ?s2) (s, p) = Some (q_at ?s2 s p) \<and> 0 < q_at ?s2 s p"
        by (auto simp: assms(4) keys_def default_bg_freq_def example_q_def q_at_def)
      then have "\<forall>s\<in>set (keys (bg_freq ?s2)). \<exists>x. map_of (q ?s2) (s, p) = Some x \<and> 0 < x"
        by blast
      then show "information ?s2 p = Inr (information_sum ?s2 p)" by (rule information_ok)
    qed
  qed
  also have "filter (\<lambda>p. 1.25 < information_sum ?s2 p) [0..<2] = [0, 1]"
    using example_information [of ?s2] by (simp add: assms(4) upt_0_2)
  finally show ?thesis by simp
qed

lemma build_example: "MakePSSM example_fs (fresh ''motifs.txt'' sf) (Num 0.1) = Inr (built sf)"
proof -
  have "MakePSSM example_fs (fresh ''motifs.txt'' sf) (Num 0.1)
          = MakePSSM example_fs (loaded sf) (Num 0.1)"
    by (simp add: MakePSSM_def getmotif_example) (simp add: fresh_def loaded_def)
  also have "\<dots> = Inr ((loaded sf)\<lparr> log_q := map (\<lambda>(k, x). (k, ln x)) example_q, q := example_q,
                       goodlist := [], informational := informational (loaded sf) @ [0, 1] \<rparr>)"
    by (rule build_loaded) (simp_all add: loaded_def fresh_def)
  also have "\<dots> = Inr (built sf)"
    by (simp add: loaded_def built_def fresh_def)
  finally show ?thesis .
qed

lemma rebuild_example:
  "MakePSSM example_fs (built sf) (Num 0.1) = Inr ((built sf)\<lparr> informational := [0, 1, 0, 1] \<rparr>)"
proof -
  have "MakePSSM example_fs (built sf) (Num 0.1)
     = Inr ((built sf)\<lparr> log_q := map (\<lambda>(k, x). (k, ln x)) example_q, q := example_q,
                       goodlist := [], informational := informational (built sf) @ [0, 1] \<rparr>)"
    by (rule build_loaded) (simp_all add: built_def fresh_def)
  also have "\<dots> = Inr ((built sf)\<lparr> informational := [0, 1, 0, 1] \<rparr>)"
    by (simp add: built_def fresh_def)
  finally show ?thesis .
qed

subsection \<open>Frequencies and information content\<close>

lemma sum_list_divide_const: "(\<Sum>x\<leftarrow>xs. f x / c) = (\<Sum>x\<leftarrow>xs. f x) / (c::real)"
  by (induction xs) (simp_all add: add_divide_distrib)

lemma sum_list_real: "(\<Sum>x\<leftarrow>xs. real (f x)) = real (\<Sum>x\<leftarrow>xs. f x)"
  by (induction xs) simp_all

lemma sum_list_times_const: "(\<Sum>x\<leftarrow>xs. c * f x) = c * (\<Sum>x\<leftarrow>xs. f x :: real)"
  by (induction xs) (simp_all add: distrib_left)

lemma adjusted_sum:
  assumes training: "training_ok self"
    and dist: "distinct (keys (bg_freq self))"
    and total: "sum_list (map snd (bg_freq self)) = 1"
    and L: "motif_len self = Some L"
    and p: "p < L"
    and D: "real (N self) + B \<noteq> 0"
  shows "(\<Sum>s\<leftarrow>keys (bg_freq self). adjusted_frequency self B s p) = 1"
proof -
  let ?ks = "keys (bg_freq self)"
  let ?ms = "motif_sequences self"
  have occ: "(\<Sum>s\<leftarrow>?ks. occurrences ?ms s p) = length ?ms"
  proof (rule occurrences_sum [OF dist])
    show "\<forall>m\<in>set ?ms. p < length m \<and> m ! p \<in> set ?ks"
    proof
      fix m assume m: "m \<in> set ?ms"
      with training L have len: "length m = L" and sub: "set m \<subseteq> set ?ks"
        by (auto simp: training_ok_def)
      from len p have "m ! p \<in> set m" by simp
      with sub len p show "p < length m \<and> m ! p \<in> set ?ks" by auto
    qed
  qed
  have bgsum: "(\<Sum>s\<leftarrow>?ks. the (map_of (bg_freq self) s)) = 1"
  proof -
    from dist have "map (\<lambda>s. the (map_of (bg_freq self) s)) (map fst (bg_freq self))
        = map snd (bg_freq self)"
      unfolding keys_def by (rule values_of_keys)
    then have "(\<Sum>s\<leftarrow>map fst (bg_freq self). the (map_of (bg_freq self) s))
        = sum_list (map snd (bg_freq self))"
      by (rule arg_cong)
    with total show ?thesis by (simp only: keys_def)
  qed
  have "(\<Sum>s\<leftarrow>?ks. adjusted_frequency self B s p)
      = ((\<Sum>s\<leftarrow>?ks. real (occurrences ?ms s p))
                  + B * (\<Sum>s\<leftarrow>?ks. the (map_of (bg_freq self) s))) / (real (N self) + B)"
    by (simp add: adjusted_frequency_def sum_list_divide_const sum_list_addf sum_list_times_const)
  also have "\<dots> = (real (length ?ms) + B) / (real (N self) + B)"
    by (simp add: sum_list_real occ bgsum)
  also have "\<dots> = 1"
    using training D by (simp add: training_ok_def)
  finally show ?thesis .
qed

text \<open>
  Claim C5: for any background table whose values sum to 1, any training set, any
  pseudocount constant \<open>B\<close> at least 0 and every position \<open>p\<close> below the motif width,
  the pseudocount-adjusted frequencies
  \<^verbatim>\<open>q[s,p] = (count[s,p] + B * background[s]) / (N + B)\<close> sum to 1 over the alphabet,
  in exact real arithmetic. The table has distinct keys (it is a dict) and the training set
  is well formed, as the loader leaves it; then the specification's quotients sum to 1 for
  every \<open>B\<close> at least 0 and a non-empty training set, and whenever a build returns, the
  stored \<^verbatim>\<open>q[s, p]\<close> are those quotients and sum to 1 as well.
\<close>

theorem q_sums_to_one:
  assumes training: "training_ok self"
    and dist: "distinct (keys (bg_freq self))"
    and total: "sum_list (map snd (bg_freq self)) = 1"
    and L: "motif_len self = Some L"
    and p: "p < L"
  shows "(0 \<le> B \<and> 0 < N self \<longrightarrow>
            (\<Sum>s\<leftarrow>keys (bg_freq self). adjusted_frequency self B s p) = 1)
       \<and> (MakePSSM fs self0 B0 = Inr self \<longrightarrow>
            (\<forall>s\<in>set (keys (bg_freq self)).
               map_of (q self) (s, p)
                 = Some (adjusted_frequency self (pseudocount_value self B0) s p))
            \<and> (\<Sum>s\<leftarrow>keys (bg_freq self). q_at self s p) = 1)"
proof (intro conjI impI)
  assume "0 \<le> B \<and> 0 < N self"
  then have "real (N self) + B \<noteq> 0" by auto
  from adjusted_sum [OF training dist total L p this]
  show "(\<Sum>s\<leftarrow>keys (bg_freq self). adjusted_frequency self B s p) = 1" .
next
  assume build: "MakePSSM fs self0 B0 = Inr self"
  let ?B = "pseudocount_value self B0"
  let ?ks = "keys (bg_freq self)"
  from MakePSSM_Inr [OF build] obtain self1 L' where
    L': "motif_len self1 = Some L'" and
    entries: "\<forall>s\<in>set (keys (bg_freq self1)). \<forall>p<L'.
               0 < adjusted_frequency self1 (pseudocount_value self1 B0) s p
             \<and> map_of (q self) (s, p) = Some (adjusted_frequency self1 (pseudocount_value self1 B0) s p)" and
    same: "bg_freq self = bg_freq self1" "N self = N self1" "motif_len self = motif_len self1"
      "motif_sequences self = motif_sequences self1"
    by blast
  from same L L' have LL: "L' = L" by simp
  have pv: "pseudocount_value self1 B0 = ?B"
    by (cases B0) (simp_all add: pseudocount_value_def same)
  have adj: "adjusted_frequency self1 (pseudocount_value self1 B0) = adjusted_frequency self ?B"
    unfolding pv by (intro ext) (simp add: adjusted_frequency_def same)
  from entries have E: "\<forall>s\<in>set ?ks.
        0 < adjusted_frequency self ?B s p
        \<and> map_of (q self) (s, p) = Some (adjusted_frequency self ?B s p)"
    using p by (simp add: adj same LL)
  then show "\<forall>s\<in>set ?ks. map_of (q self) (s, p) = Some (adjusted_frequency self ?B s p)"
    by blast
  from total have "?ks \<noteq> []" by (auto simp: keys_def)
  then obtain s0 where "s0 \<in> set ?ks" by (cases ?ks) auto
  with E have "0 < adjusted_frequency self ?B s0 p" by blast
  then have D: "real (N self) + ?B \<noteq> 0"
    by (auto simp: adjusted_frequency_def)
  have "(\<Sum>s\<leftarrow>?ks. q_at self s p) = (\<Sum>s\<leftarrow>?ks. adjusted_frequency self ?B s p)"
    using E by (intro arg_cong [where f = sum_list] map_cong) (simp_all add: q_at_def)
  with adjusted_sum [OF training dist total L p D]
  show "(\<Sum>s\<leftarrow>?ks. q_at self s p) = 1" by simp
qed

lemma init_Inr:
  "init mi_arg sf_arg bg_arg = Inr self0 \<Longrightarrow>
     bg_freq self0 = default_bg_freq \<and> informational self0 = []"
  by (auto simp: init_def Let_def bind_err_Inr_iff split: option.splits if_splits)

text \<open>
  Claim C6: for every position \<open>p\<close> below the motif width the information content is
  \<^verbatim>\<open>log2(|alphabet|) + sum over s of q[s,p] * log2(q[s,p])\<close>, and \<open>p\<close> is
  informational exactly when that value is strictly above 1.25. For an object made by the
  constructor and built once, the value the method computes for each column is the
  specification's (the literal 2 of the code is \<open>log 2 4\<close>, the constructor's table
  having four symbols), and \<^verbatim>\<open>self.informational\<close> lists, in increasing order,
  exactly the positions whose value exceeds 1.25.
\<close>

theorem informational_positions:
  assumes "init mi_arg sf_arg bg_arg = Inr self0"
    and "MakePSSM fs self0 B0 = Inr self"
    and "motif_len self = Some L"
  shows "(\<forall>p<L. information self p = Inr (information_content self p))
       \<and> informational self = filter (\<lambda>p. information_content self p > 1.25) [0..<L]"
proof -
  from init_Inr [OF assms(1)] have bg0: "bg_freq self0 = default_bg_freq"
    and inf0: "informational self0 = []" by simp_all
  from MakePSSM_Inr [OF assms(2)] obtain self1 L' where
    load: "if motif_sequences self0 = [] then GetMotif fs self0 = Inr self1 else self1 = self0" and
    L': "motif_len self1 = Some L'" and
    inf: "\<forall>p<L'. information self p = Inr (information_sum self p)" and
    infl: "informational self
              = informational self1 @ filter (\<lambda>p. 1.25 < information_sum self p) [0..<L']" and
    same: "bg_freq self = bg_freq self1" "motif_len self = motif_len self1"
    by blast
  from same L' assms(3) have LL: "L' = L" by simp
  from load have "bg_freq self1 = bg_freq self0 \<and> informational self1 = informational self0"
    by (auto split: if_splits dest: GetMotif_fields)
  with bg0 inf0 same have bg: "bg_freq self = default_bg_freq" and i1: "informational self1 = []"
    by simp_all
  have "information_content self = information_sum self"
    by (simp add: information_content_def information_sum_def bg keys_def default_bg_freq_def
          log2_4 fun_eq_iff)
  with inf infl i1 LL show ?thesis by simp
qed

text \<open>The example model: built from a constructed object by one call, its training set is
  well formed, and its frequencies at position 0 sum to 1.\<close>

theorem q_sums_to_one_witness:
  "training_ok (built ''ties.fa'')
   \<and> distinct (keys (bg_freq (built ''ties.fa'')))
   \<and> sum_list (map snd (bg_freq (built ''ties.fa''))) = 1
   \<and> motif_len (built ''ties.fa'') = Some 2
   \<and> (0::real) \<le> 0.1 \<and> 0 < N (built ''ties.fa'')
   \<and> (\<Sum>s\<leftarrow>(codes ''ATGC''). adjusted_frequency (built ''ties.fa'') 0.1 s 0) = 1
   \<and> MakePSSM example_fs (fresh ''motifs.txt'' ''ties.fa'') (Num 0.1) = Inr (built ''ties.fa'')
   \<and> map_of (q (built ''ties.fa'')) (code CHR ''A'', 0)
       = Some (adjusted_frequency (built ''ties.fa'') 0.1 (code CHR ''A'') 0)
   \<and> (\<Sum>s\<leftarrow>(codes ''ATGC''). q_at (built ''ties.fa'') s 0) = 1"
proof -
  have b: "MakePSSM example_fs (fresh ''motifs.txt'' ''ties.fa'') (Num 0.1) = Inr (built ''ties.fa'')"
    by (rule build_example)
  have t: "training_ok (built ''ties.fa'')"
    by (simp add: training_ok_def built_simps keys_def codes_def)
  have d: "distinct (keys (bg_freq (built ''ties.fa'')))"
    by (simp add: built_simps keys_def)
  have u: "sum_list (map snd (bg_freq (built ''ties.fa''))) = 1"
    by (simp add: built_simps)
  have m: "motif_len (built ''ties.fa'') = Some 2" by (rule motif_len_built)
  have k: "keys (bg_freq (built ''ties.fa'')) = (codes ''ATGC'')"
    by (simp add: built_simps keys_def codes_def)
  have v: "pseudocount_value (built ''ties.fa'') (Num 0.1) = 0.1"
    by (simp add: pseudocount_value_def)
  have n: "(0::real) \<le> 0.1 \<and> 0 < N (built ''ties.fa'')" by (simp add: built_def)
  have z: "(0::nat) < 2" by simp
  from q_sums_to_one [OF t d u m z, of "0.1" example_fs "fresh ''motifs.txt'' ''ties.fa''" "Num 0.1"]
    b t d u m n
  show ?thesis unfolding k v by (simp add: codes_def)
qed

text \<open>The example model: both positions are informational.\<close>

theorem informational_positions_witness:
  "init (Some ''motifs.txt'') (Some ''ties.fa'') None = Inr (fresh ''motifs.txt'' ''ties.fa'')
   \<and> MakePSSM example_fs (fresh ''motifs.txt'' ''ties.fa'') (Num 0.1) = Inr (built ''ties.fa'')
   \<and> motif_len (built ''ties.fa'') = Some 2
   \<and> information (built ''ties.fa'') 0 = Inr (information_content (built ''ties.fa'') 0)
   \<and> information (built ''ties.fa'') 1 = Inr (information_content (built ''ties.fa'') 1)
   \<and> [0, 1] = filter (\<lambda>p. information_content (built ''ties.fa'') p > 1.25) [0..<2]"
proof -
  have i: "init (Some ''motifs.txt'') (Some ''ties.fa'') None = Inr (fresh ''motifs.txt'' ''ties.fa'')"
    by (simp add: init_default)
  have b: "MakePSSM example_fs (fresh ''motifs.txt'' ''ties.fa'') (Num 0.1) = Inr (built ''ties.fa'')"
    by (rule build_example)
  have m: "motif_len (built ''ties.fa'') = Some 2" by (rule motif_len_built)
  have l: "informational (built ''ties.fa'') = [0, 1]" by (simp add: built_def)
  from informational_positions [OF i b m] have
    "(\<forall>p<2. information (built ''ties.fa'') p = Inr (information_content (built ''ties.fa'') p))"
    and "[0, 1] = filter (\<lambda>p. information_content (built ''ties.fa'') p > 1.25) [0..<2]"
    unfolding l by blast+
  with i b m show ?thesis by simp
qed

subsection \<open>Building twice\<close>

text \<open>
  Claim C8 says that building the model is a pure function of the training set and the
  pseudocount constant, with no hidden state: calling \<^verbatim>\<open>MakePSSM\<close> a second time with
  the same constant leaves \<^verbatim>\<open>log_q\<close>, \<^verbatim>\<open>q\<close>, \<^verbatim>\<open>log_p\<close> and the informational
  positions as one call leaves them. On the motif file \<^verbatim>\<open>motifs.txt\<close> the first call
  yields the informational positions \<^verbatim>\<open>[0, 1]\<close>; the second call leaves the three tables
  as they are but appends the positions again, giving \<^verbatim>\<open>[0, 1, 0, 1]\<close>, and the window
  \<^verbatim>\<open>AC\<close> then scores twice what it scored before.
\<close>

theorem rebuild_repeats_informational:
  "MakePSSM example_fs (fresh ''motifs.txt'' ''ties.fa'') (Num 0.1) = Inr (built ''ties.fa'')
   \<and> MakePSSM example_fs (built ''ties.fa'') (Num 0.1)
       = Inr ((built ''ties.fa'')\<lparr> informational := [0, 1, 0, 1] \<rparr>)
   \<and> informational (built ''ties.fa'') = [0, 1]
   \<and> region_score (built ''ties.fa'') (codes ''AC'') = Inr score_AC
   \<and> region_score ((built ''ties.fa'')\<lparr> informational := [0, 1, 0, 1] \<rparr>) (codes ''AC'')
       = Inr (2 * score_AC)
   \<and> 2 * score_AC \<noteq> score_AC"
proof -
  have twice: "region_score ((built ''ties.fa'')\<lparr> informational := [0, 1, 0, 1] \<rparr>) (codes ''AC'')
       = Inr (2 * score_AC)"
    by (simp add: region_score_def score_step_def getitem_def built_simps score_AC_def)
  have "2 * score_AC \<noteq> score_AC" using score_AC_pos by simp
  with twice show ?thesis
    by (simp add: build_example rebuild_example region_score_AC) (simp add: built_def)
qed

end
